theory Spec2Isabelle
  imports Main
begin

section \<open>The command center of \<^verbatim>\<open>O-code/ii.js\<close>\<close>

text \<open>
  A shallow embedding of the automation engine of \<^verbatim>\<open>src/O-code/ii.js\<close>: the
  command grammar (\<^verbatim>\<open>parseAndExecute\<close>), the two-level dispatcher, the tab table, the
  URL utilities and the timer-driven loop, parallel, chain and multi-command execution.

  Conventions of the model.
  \<^item> A JavaScript string is a \<open>string\<close>; a \<open>char\<close> stands for the UTF-16 code unit of
    the same value, so the model covers the strings whose code units are below 256.
  \<^item> A thrown \<^verbatim>\<open>Error\<close> is a value \<open>Error msg\<close>; a function that may throw returns
    \<open>error + 'a\<close> next to the state it leaves behind.
  \<^item> The globals (\<^verbatim>\<open>activeTabs\<close>, \<^verbatim>\<open>activeLoops\<close>, \<^verbatim>\<open>scheduledTasks\<close>,
    \<^verbatim>\<open>taskIdCounter\<close>), the part of the document the code reads back, the log and
    the host's timer queue are fields of one \<open>state\<close> record that is passed along.
  \<^item> Numbers are natural numbers or integers; the model is exact where JavaScript's
    doubles are (below \<open>2^53\<close>).
\<close>

subsection \<open>Strings: the built-ins the code uses\<close>

datatype error = Error string

text \<open>Line terminators in the range of the model: LF and CR.\<close>

definition isLineTerminator :: "char \<Rightarrow> bool" where
  "isLineTerminator c = (c = CHR 0x0A \<or> c = CHR 0x0D)"

text \<open>White space as \<^verbatim>\<open>\s\<close> and \<^verbatim>\<open>trim\<close> see it: TAB, LF, VT, FF, CR, space, NBSP.\<close>

definition isWhiteSpace :: "char \<Rightarrow> bool" where
  "isWhiteSpace c = (c = CHR 0x09 \<or> c = CHR 0x0A \<or> c = CHR 0x0B \<or> c = CHR 0x0C
     \<or> c = CHR 0x0D \<or> c = CHR 0x20 \<or> c = CHR 0xA0)"

text \<open>The code unit of a character (\<^verbatim>\<open>charCodeAt\<close>).\<close>

definition charCode :: "char \<Rightarrow> nat" where
  "charCode c = of_char c"

definition isDigit :: "char \<Rightarrow> bool" where
  "isDigit c = (48 \<le> charCode c \<and> charCode c \<le> 57)"

definition isUpper :: "char \<Rightarrow> bool" where
  "isUpper c = (65 \<le> charCode c \<and> charCode c \<le> 90)"

definition isLower :: "char \<Rightarrow> bool" where
  "isLower c = (97 \<le> charCode c \<and> charCode c \<le> 122)"

text \<open>The class \<^verbatim>\<open>\w\<close>.\<close>

definition isWordChar :: "char \<Rightarrow> bool" where
  "isWordChar c = (isUpper c \<or> isLower c \<or> isDigit c \<or> c = CHR ''_'')"

text \<open>
  \<^verbatim>\<open>String.prototype.toLowerCase\<close> on one code unit below 256: the ASCII capitals and
  the Latin-1 capitals \<open>0xC0..0xDE\<close> (without the multiplication sign \<open>0xD7\<close>) move up
  by 32.
\<close>

definition toLowerChar :: "char \<Rightarrow> char" where
  "toLowerChar c =
     (let n = charCode c
      in if (65 \<le> n \<and> n \<le> 90) \<or> (192 \<le> n \<and> n \<le> 222 \<and> n \<noteq> 215)
         then char_of (n + 32) else c)"

definition toLowerCase :: "string \<Rightarrow> string" where
  "toLowerCase s = map toLowerChar s"

text \<open>
  Matching a pattern character that is an ASCII letter under the flag \<^verbatim>\<open>i\<close>: the
  subject character is that letter in either case (no code unit outside ASCII
  canonicalizes to an ASCII letter).
\<close>

definition toUpperAscii :: "char \<Rightarrow> char" where
  "toUpperAscii c = (if isLower c then char_of (charCode c - 32) else c)"

definition startsWith :: "string \<Rightarrow> string \<Rightarrow> bool" where
  "startsWith s p = (take (length p) s = p)"

definition startsWithI :: "string \<Rightarrow> string \<Rightarrow> bool" where
  "startsWithI s p = (map toUpperAscii (take (length p) s) = map toUpperAscii p)"

text \<open>\<^verbatim>\<open>s.includes(p)\<close>, also the test of a regular expression that is a plain literal.\<close>

fun includesStr :: "string \<Rightarrow> string \<Rightarrow> bool" where
  "includesStr [] p = (p = [])"
| "includesStr (c # s) p = (startsWith (c # s) p \<or> includesStr s p)"

text \<open>\<^verbatim>\<open>trim\<close>: white space is dropped at both ends.\<close>

definition trim :: "string \<Rightarrow> string" where
  "trim s = rev (dropWhile isWhiteSpace (rev (dropWhile isWhiteSpace s)))"

text \<open>
  \<^verbatim>\<open>s.split(sep)\<close> for a separator that is not empty (the code has no other): the
  pieces between the occurrences of \<open>sep\<close>, found from the left without overlap.
  \<open>splitFirst\<close> cuts at the first occurrence.
\<close>

fun splitFirst :: "string \<Rightarrow> string \<Rightarrow> (string \<times> string) option" where
  "splitFirst sep [] = None"
| "splitFirst sep (c # s) =
     (if startsWith (c # s) sep then Some ([], drop (length sep) (c # s))
      else (case splitFirst sep s of
              None \<Rightarrow> None
            | Some (a, b) \<Rightarrow> Some (c # a, b)))"

lemma splitFirst_shorter:
  "splitFirst sep s = Some (a, b) \<Longrightarrow> sep \<noteq> [] \<Longrightarrow> length b < length s"
proof (induction s arbitrary: a)
  case Nil
  then show ?case by simp
next
  case (Cons c s)
  show ?case
  proof (cases "startsWith (c # s) sep")
    case True
    with Cons.prems show ?thesis by (cases sep) auto
  next
    case False
    with Cons.prems obtain a' where "splitFirst sep s = Some (a', b)"
      by (auto split: option.splits)
    with Cons.IH Cons.prems(2) have "length b < length s" by blast
    then show ?thesis by simp
  qed
qed

function splitOn :: "string \<Rightarrow> string \<Rightarrow> string list" where
  "splitOn sep s =
     (if sep = [] then [s]
      else (case splitFirst sep s of
              None \<Rightarrow> [s]
            | Some (a, b) \<Rightarrow> a # splitOn sep b))"
  by pat_completeness auto
termination
  by (relation "measure (\<lambda>(sep, s). length s)") (auto dest: splitFirst_shorter)

declare splitOn.simps [simp del]

text \<open>
  Reading \<^verbatim>\<open>arr[i]\<close>: \<^verbatim>\<open>undefined\<close> beyond the end, which is \<open>None\<close> here.
\<close>

definition at :: "'a list \<Rightarrow> nat \<Rightarrow> 'a option" where
  "at xs i = (if i < length xs then Some (xs ! i) else None)"

text \<open>Numbers in template strings: the decimal numeral of a natural number.\<close>

definition digitChar :: "nat \<Rightarrow> char" where
  "digitChar d = char_of (48 + d)"

function showNat :: "nat \<Rightarrow> string" where
  "showNat n = (if n < 10 then [digitChar n] else showNat (n div 10) @ [digitChar (n mod 10)])"
  by pat_completeness auto
termination
  by (relation "measure id") auto

declare showNat.simps [simp del]

definition showInt :: "int \<Rightarrow> string" where
  "showInt i = (if i < 0 then CHR ''-'' # showNat (nat (- i)) else showNat (nat i))"

text \<open>
  \<^verbatim>\<open>parseInt(s)\<close> without a radix: leading white space and a sign are skipped, a
  prefix \<^verbatim>\<open>0x\<close> or \<^verbatim>\<open>0X\<close> selects base 16, the longest run of digits of the base
  is read, and the result is \<^verbatim>\<open>NaN\<close> (here \<open>None\<close>) when that run is empty.
\<close>

definition digitValue :: "char \<Rightarrow> nat" where
  "digitValue c =
     (if isDigit c then charCode c - 48
      else if isLower c then charCode c - 87
      else charCode c - 55)"

definition isHexDigit :: "char \<Rightarrow> bool" where
  "isHexDigit c = (isDigit c \<or> (97 \<le> charCode c \<and> charCode c \<le> 102)
     \<or> (65 \<le> charCode c \<and> charCode c \<le> 70))"

definition digitsValue :: "nat \<Rightarrow> string \<Rightarrow> nat" where
  "digitsValue radix ds = foldl (\<lambda>acc c. acc * radix + digitValue c) 0 ds"

definition parseUnsigned :: "string \<Rightarrow> nat option" where
  "parseUnsigned s =
     (if startsWith s ''0x'' \<or> startsWith s ''0X''
      then (let ds = takeWhile isHexDigit (drop 2 s)
            in if ds = [] then None else Some (digitsValue 16 ds))
      else (let ds = takeWhile isDigit s
            in if ds = [] then None else Some (digitsValue 10 ds)))"

definition parseInt :: "string \<Rightarrow> int option" where
  "parseInt str =
     (let s = dropWhile isWhiteSpace str
      in case s of
           [] \<Rightarrow> None
         | c # r \<Rightarrow>
             (if c = CHR ''-'' then map_option (\<lambda>n. - int n) (parseUnsigned r)
              else if c = CHR ''+'' then map_option int (parseUnsigned r)
              else map_option int (parseUnsigned s)))"

text \<open>\<^verbatim>\<open>parseInt\<close> of a capture of \<^verbatim>\<open>\d+\<close>: its decimal value.\<close>

definition parseDigits :: "string \<Rightarrow> nat" where
  "parseDigits ds = digitsValue 10 ds"

subsection \<open>The command grammar\<close>

text \<open>
  \<^verbatim>\<open>command.match(/^(Raitha|Rena|Leaf)/i)\<close>: the capture is the text matched, in the
  letter case of the subject.
\<close>

definition matchII :: "string \<Rightarrow> string option" where
  "matchII command =
     (if startsWithI command ''Raitha'' then Some (take 6 command)
      else if startsWithI command ''Rena'' then Some (take 4 command)
      else if startsWithI command ''Leaf'' then Some (take 4 command)
      else None)"

text \<open>
  \<^verbatim>\<open>command.match(/Ex\.(\w+)/i)\<close>: the leftmost position where \<^verbatim>\<open>Ex.\<close> (in any letter
  case) is followed by a word character; the capture is the whole run of word
  characters there.
\<close>

fun matchAction :: "string \<Rightarrow> string option" where
  "matchAction [] = None"
| "matchAction (c # s) =
     (if startsWithI (c # s) ''Ex.'' \<and> takeWhile isWordChar (drop 3 (c # s)) \<noteq> []
      then Some (takeWhile isWordChar (drop 3 (c # s)))
      else matchAction s)"

text \<open>
  \<^verbatim>\<open>\s*(.+)\<close> anchored at the head of a string. \<^verbatim>\<open>\s*\<close> is greedy and gives white space
  back one character at a time until \<^verbatim>\<open>.+\<close>, which takes no line terminator, finds a
  character; the capture runs to the next line terminator.
\<close>

fun matchSpacesDotPlus :: "string \<Rightarrow> string option" where
  "matchSpacesDotPlus [] = None"
| "matchSpacesDotPlus (c # r) =
     (if isWhiteSpace c
      then (case matchSpacesDotPlus r of
              Some g \<Rightarrow> Some g
            | None \<Rightarrow> (if isLineTerminator c then None
                       else Some (takeWhile (\<lambda>x. \<not> isLineTerminator x) (c # r))))
      else Some (takeWhile (\<lambda>x. \<not> isLineTerminator x) (c # r)))"

text \<open>\<^verbatim>\<open>command.match(/--\s*(.+)/)\<close>: the leftmost \<^verbatim>\<open>--\<close> after which the rest matches.\<close>

fun matchParams :: "string \<Rightarrow> string option" where
  "matchParams [] = None"
| "matchParams (c # s) =
     (if startsWith (c # s) ''--''
      then (case matchSpacesDotPlus (drop 1 s) of
              Some g \<Rightarrow> Some g
            | None \<Rightarrow> matchParams s)
      else matchParams s)"

text \<open>
  The first half of \<^verbatim>\<open>parseAndExecute\<close>: the three matches, in the order of the
  source, each with its own error. The result is the triple handed to
  \<^verbatim>\<open>executeAction\<close>.
\<close>

definition parseCommand :: "string \<Rightarrow> error + (string \<times> string \<times> string)" where
  "parseCommand command =
     (case matchII command of
        None \<Rightarrow> Inl (Error ''Command must start with II name'')
      | Some ii \<Rightarrow>
          (case matchAction command of
             None \<Rightarrow> Inl (Error ''Invalid action format. Use: Ex.[action]'')
           | Some act \<Rightarrow>
               (case matchParams command of
                  None \<Rightarrow> Inl (Error ''Missing parameters. Use: -- [params]'')
                | Some p \<Rightarrow> Inr (toLowerCase ii, toLowerCase act, trim p))))"


subsection \<open>The parameter patterns of the actions\<close>

text \<open>
  Every action matches its parameter string against a pattern of the shape
  \<^verbatim>\<open>(.+)\.<tail>$\<close>. The functions below are the pieces of these patterns, with the
  backtracking order of the regular expression engine: a match is tried at each start
  position from the left, and the greedy \<^verbatim>\<open>(.+)\<close> is tried longest first.

  \<open>dotPlusDot pre s\<close> lists the ways \<^verbatim>\<open>(.+)\.\<close> matches at the head of \<open>pre @ s\<close> with
  a capture that extends \<open>pre\<close>, as pairs of the capture and the rest after the dot,
  longest capture first. \<^verbatim>\<open>.\<close> takes no line terminator.
\<close>

fun dotPlusDot :: "string \<Rightarrow> string \<Rightarrow> (string \<times> string) list" where
  "dotPlusDot pre [] = []"
| "dotPlusDot pre (c # s) =
     (if isLineTerminator c then []
      else dotPlusDot (pre @ [c]) s @ (if pre \<noteq> [] \<and> c = CHR ''.'' then [(pre, s)] else []))"

fun firstSome :: "('a \<Rightarrow> 'b option) \<Rightarrow> 'a list \<Rightarrow> 'b option" where
  "firstSome f [] = None"
| "firstSome f (x # xs) = (case f x of Some y \<Rightarrow> Some y | None \<Rightarrow> firstSome f xs)"

text \<open>\<^verbatim>\<open>(.+)\.\<close> followed by a tail: the longest capture whose rest the tail accepts.\<close>

definition dotPlusDotThen :: "(string \<Rightarrow> 'a option) \<Rightarrow> string \<Rightarrow> (string \<times> 'a) option" where
  "dotPlusDotThen tail s =
     firstSome (\<lambda>(g, r). map_option (Pair g) (tail r)) (dotPlusDot [] s)"

text \<open>A pattern without \<^verbatim>\<open>^\<close>: the leftmost start position at which it matches.\<close>

fun fromLeft :: "(string \<Rightarrow> 'a option) \<Rightarrow> string \<Rightarrow> 'a option" where
  "fromLeft m [] = None"
| "fromLeft m (c # s) = (case m (c # s) of Some r \<Rightarrow> Some r | None \<Rightarrow> fromLeft m s)"

text \<open>
  \<^verbatim>\<open>(\d+)\<close> followed by a tail. Every tail of the source begins with a character that
  is no digit or with the end of the input, so only the whole run of digits can
  match.
\<close>

definition digitsThen :: "(string \<Rightarrow> 'a option) \<Rightarrow> string \<Rightarrow> (string \<times> 'a) option" where
  "digitsThen tail r =
     (let d = takeWhile isDigit r
      in if d = [] then None else map_option (Pair d) (tail (dropWhile isDigit r)))"

text \<open>A literal dot followed by a tail.\<close>

definition dotThen :: "(string \<Rightarrow> 'a option) \<Rightarrow> string \<Rightarrow> 'a option" where
  "dotThen tail r = (case r of [] \<Rightarrow> None | c # r' \<Rightarrow> (if c = CHR ''.'' then tail r' else None))"

text \<open>\<^verbatim>\<open>$\<close> (no flag \<^verbatim>\<open>m\<close>): the end of the input.\<close>

definition endOfInput :: "string \<Rightarrow> unit option" where
  "endOfInput r = (if r = [] then Some () else None)"

text \<open>\<^verbatim>\<open>(.+)$\<close>: the rest, not empty and without a line terminator.\<close>

definition dotPlusEnd :: "string \<Rightarrow> string option" where
  "dotPlusEnd r = (if r \<noteq> [] \<and> \<not> list_ex isLineTerminator r then Some r else None)"

text \<open>\<^verbatim>\<open>(sec|min)?$\<close>; the capture is \<^verbatim>\<open>undefined\<close> (\<open>None\<close>) when the unit is absent.\<close>

definition optUnitEnd :: "string \<Rightarrow> string option option" where
  "optUnitEnd r =
     (if r = ''sec'' \<or> r = ''min'' then Some (Some r)
      else if r = [] then Some None else None)"

text \<open>\<^verbatim>\<open>(daily|weekly|hourly)$\<close> under the flag \<^verbatim>\<open>i\<close>.\<close>

definition repeatEnd :: "string \<Rightarrow> string option" where
  "repeatEnd r =
     (if map toUpperAscii r \<in> {''DAILY'', ''WEEKLY'', ''HOURLY''} then Some r else None)"

text \<open>\<^verbatim>\<open>/(.+)\.(\d+)$/\<close> (watch, lurk, test).\<close>

definition matchUrlNumber :: "string \<Rightarrow> (string \<times> string) option" where
  "matchUrlNumber params =
     map_option (\<lambda>(m1, m2, u). (m1, m2))
       (fromLeft (dotPlusDotThen (digitsThen endOfInput)) params)"

text \<open>\<^verbatim>\<open>/(.+)\.(\d+)\.(\d+)$/\<close> (refresh).\<close>

definition matchUrlNumberNumber :: "string \<Rightarrow> (string \<times> string \<times> string) option" where
  "matchUrlNumberNumber params =
     map_option (\<lambda>(m1, m2, m3, u). (m1, m2, m3))
       (fromLeft (dotPlusDotThen (digitsThen (dotThen (digitsThen endOfInput)))) params)"

text \<open>\<^verbatim>\<open>/(.+)\.(.+)$/\<close> (scrape).\<close>

definition matchTwoParts :: "string \<Rightarrow> (string \<times> string) option" where
  "matchTwoParts params = fromLeft (dotPlusDotThen dotPlusEnd) params"

text \<open>\<^verbatim>\<open>/(.+)\.(.+)\.(\d+)(min|sec)?$/\<close> (compare, monitor).\<close>

definition matchTwoPartsInterval ::
  "string \<Rightarrow> (string \<times> string \<times> string \<times> string option) option" where
  "matchTwoPartsInterval params =
     fromLeft (dotPlusDotThen (dotPlusDotThen (digitsThen optUnitEnd))) params"

text \<open>\<^verbatim>\<open>/(.+)\.(\d+)\.(\d+)(sec|min)?$/\<close> (ping, loop).\<close>

definition matchNumberNumberUnit ::
  "string \<Rightarrow> (string \<times> string \<times> string \<times> string option) option" where
  "matchNumberNumberUnit params =
     fromLeft (dotPlusDotThen (digitsThen (dotThen (digitsThen optUnitEnd)))) params"

text \<open>\<^verbatim>\<open>/(.+)\.(.+)\.(daily|weekly|hourly)$/i\<close> (schedule).\<close>

definition matchSchedule :: "string \<Rightarrow> (string \<times> string \<times> string) option" where
  "matchSchedule params = fromLeft (dotPlusDotThen (dotPlusDotThen repeatEnd)) params"

text \<open>\<^verbatim>\<open>/(.+)\.(\d+)(sec|min)?$/\<close> (rotate).\<close>

definition matchNumberUnit :: "string \<Rightarrow> (string \<times> string \<times> string option) option" where
  "matchNumberUnit params = fromLeft (dotPlusDotThen (digitsThen optUnitEnd)) params"

subsection \<open>URL utilities\<close>

text \<open>
  The test of \<^verbatim>\<open>/a.*b/\<close> for two literals: \<open>a\<close> occurs, and \<open>b\<close> occurs after it before
  the next line terminator.
\<close>

fun litDotStarLit :: "string \<Rightarrow> string \<Rightarrow> string \<Rightarrow> bool" where
  "litDotStarLit a b [] = False"
| "litDotStarLit a b (c # s) =
     ((startsWith (c # s) a \<and>
        includesStr (takeWhile (\<lambda>x. \<not> isLineTerminator x) (drop (length a) (c # s))) b)
      \<or> litDotStarLit a b s)"

definition isValidStreamingUrl :: "string \<Rightarrow> bool" where
  "isValidStreamingUrl url =
     (includesStr url ''youtube.com/watch?v=''
      \<or> includesStr url ''youtu.be/''
      \<or> includesStr url ''youtube.com/live/''
      \<or> includesStr url ''youtube.com/embed/''
      \<or> includesStr url ''twitch.tv/''
      \<or> includesStr url ''twitch.tv/videos/''
      \<or> includesStr url ''vimeo.com/''
      \<or> includesStr url ''player.vimeo.com/''
      \<or> includesStr url ''dailymotion.com/video/''
      \<or> includesStr url ''dai.ly/''
      \<or> litDotStarLit ''facebook.com/'' ''/videos/'' url
      \<or> includesStr url ''fb.watch/''
      \<or> includesStr url ''instagram.com/p/''
      \<or> includesStr url ''instagram.com/reel/''
      \<or> litDotStarLit ''tiktok.com/@'' ''/video/'' url
      \<or> includesStr url ''vm.tiktok.com/''
      \<or> includesStr url ''.m3u8''
      \<or> includesStr url ''.mp4'')"

text \<open>
  \<^verbatim>\<open>s.split(sep)[0]\<close>, which always exists, and \<^verbatim>\<open>s.split(sep)[1]\<close>, which is
  \<^verbatim>\<open>undefined\<close> (\<open>None\<close>) when \<open>sep\<close> does not occur. Calling \<^verbatim>\<open>split\<close> on \<^verbatim>\<open>undefined\<close>
  throws a \<^verbatim>\<open>TypeError\<close>.
\<close>

definition piece0 :: "string \<Rightarrow> string \<Rightarrow> string" where
  "piece0 sep s = (case splitOn sep s of [] \<Rightarrow> [] | x # xs \<Rightarrow> x)"

definition piece1 :: "string \<Rightarrow> string \<Rightarrow> string option" where
  "piece1 sep s = at (splitOn sep s) 1"

definition typeError :: error where
  "typeError = Error ''TypeError''"

text \<open>The identifier that \<^verbatim>\<open>convertYouTubeUrl\<close> puts into its local \<^verbatim>\<open>videoId\<close>.\<close>

definition youTubeVideoId :: "string \<Rightarrow> error + string" where
  "youTubeVideoId url =
     (if includesStr url ''youtube.com/watch?v='' then
        (case piece1 ''v='' url of None \<Rightarrow> Inl typeError | Some x \<Rightarrow> Inr (piece0 ''&'' x))
      else if includesStr url ''youtu.be/'' then
        (case piece1 ''youtu.be/'' url of None \<Rightarrow> Inl typeError | Some x \<Rightarrow> Inr (piece0 ''?'' x))
      else if includesStr url ''youtube.com/live/'' then
        (case piece1 ''live/'' url of None \<Rightarrow> Inl typeError | Some x \<Rightarrow> Inr (piece0 ''?'' x))
      else if includesStr url ''youtube.com/embed/'' then
        (case piece1 ''embed/'' url of None \<Rightarrow> Inl typeError | Some x \<Rightarrow> Inr (piece0 ''?'' x))
      else Inr [])"

definition convertYouTubeUrl :: "string \<Rightarrow> bool \<Rightarrow> error + string" where
  "convertYouTubeUrl url autoplay =
     (case youTubeVideoId url of
        Inl e \<Rightarrow> Inl e
      | Inr videoId \<Rightarrow>
          (if videoId = [] then Inl (Error ''Could not extract YouTube video ID'')
           else Inr (''https://www.youtube.com/embed/'' @ videoId
                     @ ''?rel=0&modestbranding=1&controls=1&showinfo=0''
                     @ (if autoplay then ''&autoplay=1&mute=1'' else []))))"

text \<open>
  \<^verbatim>\<open>convertTwitchUrl\<close>; \<open>host\<close> is \<^verbatim>\<open>window.location.hostname\<close>. \<open>twitchChannel\<close> is the
  local \<^verbatim>\<open>channel\<close> of the branch for channel URLs.
\<close>

definition twitchChannel :: "string \<Rightarrow> string" where
  "twitchChannel url =
     (case piece1 ''twitch.tv/'' url of
        None \<Rightarrow> []
      | Some parts \<Rightarrow> (if parts = [] then [] else piece0 ''?'' (piece0 ''/'' parts)))"

definition convertTwitchUrl :: "string \<Rightarrow> string \<Rightarrow> bool \<Rightarrow> error + string" where
  "convertTwitchUrl host url autoplay =
     (if includesStr url ''/videos/'' then
        (case piece1 ''/videos/'' url of
           None \<Rightarrow> Inl typeError
         | Some x \<Rightarrow>
             Inr (''https://player.twitch.tv/?video='' @ piece0 ''?'' x @ ''&parent='' @ host
                  @ (if autoplay then ''&autoplay=true&muted=true'' else [])))
      else
        (let channel = twitchChannel url
         in if channel = [] then Inl (Error ''Could not extract Twitch channel'')
            else Inr (''https://player.twitch.tv/?channel='' @ channel @ ''&parent='' @ host
                      @ (if autoplay then ''&autoplay=true&muted=true'' else []))))"

definition vimeoVideoId :: "string \<Rightarrow> error + string" where
  "vimeoVideoId url =
     (if includesStr url ''vimeo.com/'' then
        (case piece1 ''vimeo.com/'' url of
           None \<Rightarrow> Inl typeError
         | Some x \<Rightarrow> Inr (piece0 ''/'' (piece0 ''?'' x)))
      else Inr [])"

definition convertVimeoUrl :: "string \<Rightarrow> bool \<Rightarrow> error + string" where
  "convertVimeoUrl url autoplay =
     (case vimeoVideoId url of
        Inl e \<Rightarrow> Inl e
      | Inr videoId \<Rightarrow>
          (if videoId = [] then Inl (Error ''Could not extract Vimeo video ID'')
           else Inr (''https://player.vimeo.com/video/'' @ videoId
                     @ ''?title=0&byline=0&portrait=0''
                     @ (if autoplay then ''&autoplay=1&muted=1'' else []))))"

definition dailyMotionVideoId :: "string \<Rightarrow> error + string" where
  "dailyMotionVideoId url =
     (if includesStr url ''dailymotion.com/video/'' then
        (case piece1 ''/video/'' url of
           None \<Rightarrow> Inl typeError
         | Some x \<Rightarrow> Inr (piece0 ''_'' (piece0 ''?'' x)))
      else if includesStr url ''dai.ly/'' then
        (case piece1 ''dai.ly/'' url of None \<Rightarrow> Inl typeError | Some x \<Rightarrow> Inr (piece0 ''?'' x))
      else Inr [])"

definition convertDailyMotionUrl :: "string \<Rightarrow> bool \<Rightarrow> error + string" where
  "convertDailyMotionUrl url autoplay =
     (case dailyMotionVideoId url of
        Inl e \<Rightarrow> Inl e
      | Inr videoId \<Rightarrow>
          (if videoId = [] then Inl (Error ''Could not extract DailyMotion video ID'')
           else Inr (''https://www.dailymotion.com/embed/video/'' @ videoId @ ''?ui-logo=0''
                     @ (if autoplay then ''&autoplay=1&mute=1'' else []))))"


subsection \<open>The state\<close>

text \<open>
  An entry of \<^verbatim>\<open>activeTabs\<close>. Its \<^verbatim>\<open>element\<close> is a reference to the tab window that
  \<^verbatim>\<open>openTabs\<close> created; \<open>tab_element\<close> is the address of that node in the store
  \<open>elements\<close> of the state.
\<close>

record tab =
  tab_id :: nat
  tab_url :: string
  tab_type :: string
  tab_element :: nat

text \<open>
  A tab window with its iframe: the number \<open>N\<close> of its attribute \<^verbatim>\<open>id="tab-N"\<close>, the
  iframe's \<^verbatim>\<open>src\<close>, the property \<^verbatim>\<open>muted\<close> that mute and unmute set on the iframe
  (\<open>None\<close> until it is set), and how often the iframe was reloaded by a refresh timer.
\<close>

record element =
  dom_id :: nat
  src :: string
  muted :: "bool option"
  reloads :: nat

text \<open>An entry of \<^verbatim>\<open>activeLoops\<close> and one of \<^verbatim>\<open>scheduledTasks\<close>.\<close>

record loop =
  loop_command :: string
  loop_iterations :: nat
  loop_delay :: nat
  loop_current :: nat
  loop_interval :: "nat option"

record scheduledTask =
  task_command :: string
  task_time :: string
  task_repeat :: string
  task_active :: bool

datatype level = Info | Success | Failure | Warning

text \<open>
  The callbacks the code hands to \<^verbatim>\<open>setTimeout\<close> and \<^verbatim>\<open>setInterval\<close>, each with the
  variables its closure captures:
  \<^item> \<open>MultiCommand run cmd cmdIndex\<close>: one command of a line split on \<^verbatim>\<open>|\<close> by
    \<^verbatim>\<open>executeCommand\<close>; \<open>run\<close> names the invocation whose counters it updates;
  \<^item> \<open>Summary run\<close>: the closing report of \<^verbatim>\<open>executeCommand\<close>;
  \<^item> \<open>LoopTick loopId\<close>: the interval callback of \<^verbatim>\<open>startLoop\<close>;
  \<^item> \<open>ParallelCommand cmd i\<close>: one command of \<^verbatim>\<open>executeParallel\<close>;
  \<^item> \<open>ChainStep commands index\<close>: the continuation of \<^verbatim>\<open>executeChainSequence\<close>;
  \<^item> \<open>ReloadFrame e\<close>: the interval callback of \<^verbatim>\<open>openTabsWithRefresh\<close> for the
    iframe of node \<open>e\<close>.
\<close>

datatype callback =
    MultiCommand nat string nat
  | Summary nat
  | LoopTick nat
  | ParallelCommand string nat
  | ChainStep "string list" nat
  | ReloadFrame nat

text \<open>
  A pending timer of the host: its handle, the time it is due (milliseconds), the
  period when it was made by \<^verbatim>\<open>setInterval\<close>, and its callback.
\<close>

record timer =
  handle :: nat
  due :: nat
  period :: "nat option"
  callback :: callback

text \<open>
  The state: the globals of the file, the document as far as the code reads it back
  (\<open>executionGrid\<close> lists the nodes attached to the grid, in document order; no other
  element of the document has an id \<^verbatim>\<open>tab-N\<close>), the log written by \<^verbatim>\<open>log\<close> (without
  its time stamp), the timer queue and the clock of the host, the counters
  \<^verbatim>\<open>commandCount\<close> and \<^verbatim>\<open>errorCount\<close> of each invocation of \<^verbatim>\<open>executeCommand\<close>, and two
  facts about the host: \<^verbatim>\<open>window.location.hostname\<close> and whether iframes have
  \<^verbatim>\<open>requestFullscreen\<close>. Writes that only change the presentation (class lists, the tab
  count badge) are left out, and so are the decorative symbols at the head of some log
  messages, which lie outside the character range of the model; a log line that is a
  rule of such symbols is written \<^verbatim>\<open>----\<close>.
\<close>

record state =
  activeTabs :: "tab list"
  elements :: "nat \<Rightarrow> element"
  nextNode :: nat
  executionGrid :: "nat list"
  scheduledTasks :: "nat \<rightharpoonup> scheduledTask"
  activeLoops :: "nat \<rightharpoonup> loop"
  taskIdCounter :: nat
  timers :: "timer list"
  nextHandle :: nat
  clock :: nat
  outputContent :: "(level \<times> string) list"
  counters :: "(nat \<times> nat) list"
  hostname :: string
  fullscreenApi :: bool

type_synonym result = "(error + string) \<times> state"

definition logInfo :: "state \<Rightarrow> string \<Rightarrow> state" where
  "logInfo st msg = st\<lparr>outputContent := outputContent st @ [(Info, msg)]\<rparr>"

definition logSuccess :: "state \<Rightarrow> string \<Rightarrow> state" where
  "logSuccess st msg = st\<lparr>outputContent := outputContent st @ [(Success, msg)]\<rparr>"

definition logError :: "state \<Rightarrow> string \<Rightarrow> state" where
  "logError st msg = st\<lparr>outputContent := outputContent st @ [(Failure, msg)]\<rparr>"

definition logWarning :: "state \<Rightarrow> string \<Rightarrow> state" where
  "logWarning st msg = st\<lparr>outputContent := outputContent st @ [(Warning, msg)]\<rparr>"

text \<open>The timer functions of the host.\<close>

definition setTimeout :: "state \<Rightarrow> callback \<Rightarrow> nat \<Rightarrow> state" where
  "setTimeout st cb d =
     st\<lparr>timers := timers st @
            [\<lparr>handle = nextHandle st, due = clock st + d, period = None, callback = cb\<rparr>],
        nextHandle := nextHandle st + 1\<rparr>"

definition setInterval :: "state \<Rightarrow> callback \<Rightarrow> nat \<Rightarrow> nat \<times> state" where
  "setInterval st cb d =
     (nextHandle st,
      st\<lparr>timers := timers st @
            [\<lparr>handle = nextHandle st, due = clock st + d, period = Some d, callback = cb\<rparr>],
         nextHandle := nextHandle st + 1\<rparr>)"

definition clearInterval :: "state \<Rightarrow> nat option \<Rightarrow> state" where
  "clearInterval st h =
     (case h of
        None \<Rightarrow> st
      | Some n \<Rightarrow> st\<lparr>timers := filter (\<lambda>t. handle t \<noteq> n) (timers st)\<rparr>)"

subsection \<open>Tab management\<close>

text \<open>\<^verbatim>\<open>Math.max(...ids)\<close>; the code calls it on a list that is not empty.\<close>

fun Math_max :: "nat list \<Rightarrow> nat" where
  "Math_max [] = 0"
| "Math_max (x # xs) = max x (Math_max xs)"

text \<open>The body of the loop of \<^verbatim>\<open>openTabs\<close> for one \<open>tabId\<close>.\<close>

definition openTab :: "string \<Rightarrow> string \<Rightarrow> nat \<Rightarrow> state \<Rightarrow> state" where
  "openTab url type tabId st =
     (let e = nextNode st
      in st\<lparr>elements := (elements st)(e := \<lparr>dom_id = tabId, src = url, muted = None, reloads = 0\<rparr>),
            nextNode := e + 1,
            executionGrid := executionGrid st @ [e],
            activeTabs := activeTabs st @
              [\<lparr>tab_id = tabId, tab_url = url, tab_type = type, tab_element = e\<rparr>]\<rparr>)"

definition startId :: "state \<Rightarrow> nat" where
  "startId st =
     (if length (activeTabs st) > 0 then Math_max (map tab_id (activeTabs st)) + 1 else 0)"

definition openTabs :: "state \<Rightarrow> string \<Rightarrow> nat \<Rightarrow> string \<Rightarrow> state" where
  "openTabs st url count type =
     (let st1 = fold (\<lambda>i. openTab url type (startId st + i)) [0..<count] st
      in logSuccess st1 (''Opened '' @ showNat count @ '' tab(s) in execution screen (Total: ''
                          @ showNat (length (activeTabs st1)) @ '')''))"

definition openTabsWithRefresh :: "state \<Rightarrow> string \<Rightarrow> nat \<Rightarrow> nat \<Rightarrow> state" where
  "openTabsWithRefresh st url interval_ms count =
     (let st1 = openTabs st url count ''refresh''
      in fold (\<lambda>tab s. snd (setInterval s (ReloadFrame (tab_element tab)) interval_ms))
           (activeTabs st1) st1)"

text \<open>\<^verbatim>\<open>document.getElementById('tab-' + index)\<close>: the first node of the grid with that id.\<close>

definition getTabElement :: "state \<Rightarrow> nat \<Rightarrow> nat option" where
  "getTabElement st index = find (\<lambda>e. dom_id (elements st e) = index) (executionGrid st)"

definition closeTab :: "state \<Rightarrow> nat \<Rightarrow> state" where
  "closeTab st index =
     (case getTabElement st index of
        None \<Rightarrow> st
      | Some e \<Rightarrow>
          st\<lparr>executionGrid := remove1 e (executionGrid st),
             activeTabs := filter (\<lambda>t. tab_id t \<noteq> index) (activeTabs st)\<rparr>)"

definition closeAllTabs :: "state \<Rightarrow> state" where
  "closeAllTabs st =
     logInfo (st\<lparr>executionGrid := [], activeTabs := []\<rparr>)
       (''Closed all '' @ showNat (length (activeTabs st)) @ '' tab(s)'')"

subsection \<open>Raitha: media and browser automation\<close>

definition convertToEmbedUrl :: "state \<Rightarrow> string \<Rightarrow> bool \<Rightarrow> result" where
  "convertToEmbedUrl st url autoplay =
     (if includesStr url ''youtube.com'' \<or> includesStr url ''youtu.be''
        then (convertYouTubeUrl url autoplay, st)
      else if includesStr url ''twitch.tv''
        then (convertTwitchUrl (hostname st) url autoplay, st)
      else if includesStr url ''vimeo.com''
        then (convertVimeoUrl url autoplay, st)
      else if includesStr url ''dailymotion.com'' \<or> includesStr url ''dai.ly''
        then (convertDailyMotionUrl url autoplay, st)
      else if includesStr url ''facebook.com'' \<or> includesStr url ''fb.watch''
        then (Inr url,
              logWarning st ''Facebook embeds have limitations due to platform restrictions'')
      else if includesStr url ''instagram.com''
        then (Inr url,
              logWarning st ''Instagram embeds have limitations due to platform restrictions'')
      else if includesStr url ''tiktok.com''
        then (Inr url,
              logWarning st ''TikTok embeds have limitations due to platform restrictions'')
      else (Inr url, st))"

definition executeWatch :: "state \<Rightarrow> string \<Rightarrow> result" where
  "executeWatch st params =
     (case matchUrlNumber params of
        None \<Rightarrow> (Inl (Error ''Format: <url>.<tabs>''), st)
      | Some (m1, m2) \<Rightarrow>
          (let url = trim m1; tabCount = parseDigits m2
           in if tabCount < 1 \<or> tabCount > 100 then (Inl (Error ''Tab count: 1-100''), st)
              else if \<not> isValidStreamingUrl url
                then (Inl (Error ''Invalid streaming platform URL''), st)
              else (case convertToEmbedUrl st url False of
                      (Inl e, st1) \<Rightarrow> (Inl e, st1)
                    | (Inr embedUrl, st1) \<Rightarrow>
                        (Inr (''Opened '' @ showNat tabCount @ '' tab(s) watching: '' @ url),
                         openTabs st1 embedUrl tabCount ''watch''))))"

definition executeLurk :: "state \<Rightarrow> string \<Rightarrow> result" where
  "executeLurk st params =
     (case matchUrlNumber params of
        None \<Rightarrow> (Inl (Error ''Format: <url>.<tabs>''), st)
      | Some (m1, m2) \<Rightarrow>
          (let url = trim m1; tabCount = parseDigits m2
           in if tabCount < 1 \<or> tabCount > 100 then (Inl (Error ''Tab count: 1-100''), st)
              else if \<not> isValidStreamingUrl url
                then (Inl (Error ''Invalid streaming platform URL''), st)
              else (case convertToEmbedUrl st url True of
                      (Inl e, st1) \<Rightarrow> (Inl e, st1)
                    | (Inr embedUrl, st1) \<Rightarrow>
                        (Inr (''Opened '' @ showNat tabCount @ '' tab(s) lurking in: '' @ url),
                         openTabs st1 embedUrl tabCount ''lurk''))))"

definition executeRefresh :: "state \<Rightarrow> string \<Rightarrow> result" where
  "executeRefresh st params =
     (case matchUrlNumberNumber params of
        None \<Rightarrow> (Inl (Error ''Format: <url>.<interval_sec>.<tabs>''), st)
      | Some (m1, m2, m3) \<Rightarrow>
          (let url = trim m1; interval_ms = parseDigits m2 * 1000; tabCount = parseDigits m3
           in (Inr (''Opened '' @ showNat tabCount @ '' tab(s) with ''
                    @ showNat (interval_ms div 1000) @ ''s auto-refresh''),
               openTabsWithRefresh st url interval_ms tabCount)))"

text \<open>\<^verbatim>\<open>iframe.muted = b\<close> on the iframe of a tab.\<close>

definition setMuted :: "bool \<Rightarrow> tab \<Rightarrow> state \<Rightarrow> state" where
  "setMuted b t st =
     st\<lparr>elements := (elements st)(tab_element t := (elements st (tab_element t))\<lparr>muted := Some b\<rparr>)\<rparr>"

text \<open>
  \<^verbatim>\<open>params.split(',').map(n => parseInt(n.trim()) - 1)\<close>; \<open>None\<close> is \<^verbatim>\<open>NaN\<close>.
\<close>

definition tabIdsOf :: "string \<Rightarrow> int option list" where
  "tabIdsOf params = map (\<lambda>n. map_option (\<lambda>v. v - 1) (parseInt (trim n))) (splitOn '','' params)"

text \<open>\<^verbatim>\<open>activeTabs.find(t => t.id === id)\<close>; \<^verbatim>\<open>NaN\<close> equals no id.\<close>

definition findTab :: "state \<Rightarrow> int option \<Rightarrow> tab option" where
  "findTab st i =
     (case i of None \<Rightarrow> None | Some v \<Rightarrow> find (\<lambda>t. int (tab_id t) = v) (activeTabs st))"

definition muteOne :: "bool \<Rightarrow> int option \<Rightarrow> state \<Rightarrow> state" where
  "muteOne b i st = (case findTab st i of None \<Rightarrow> st | Some t \<Rightarrow> setMuted b t st)"

definition executeMute :: "state \<Rightarrow> string \<Rightarrow> result" where
  "executeMute st params =
     (if toLowerCase params = ''all''
      then (Inr (''Muted all '' @ showNat (length (activeTabs st)) @ '' tab(s)''),
            fold (setMuted True) (activeTabs st) st)
      else (let tabIds = tabIdsOf params
            in (Inr (''Muted '' @ showNat (length tabIds) @ '' tab(s)''),
                fold (muteOne True) tabIds st)))"

definition executeUnmute :: "state \<Rightarrow> string \<Rightarrow> result" where
  "executeUnmute st params =
     (if toLowerCase params = ''all''
      then (Inr (''Unmuted all '' @ showNat (length (activeTabs st)) @ '' tab(s)''),
            fold (setMuted False) (activeTabs st) st)
      else (let tabIds = tabIdsOf params
            in (Inr (''Unmuted '' @ showNat (length tabIds) @ '' tab(s)''),
                fold (muteOne False) tabIds st)))"

definition executeScroll :: "state \<Rightarrow> string \<Rightarrow> result" where
  "executeScroll st params =
     (Inr ''Scroll command registered'',
      logWarning st ''Scroll command simulated (cross-origin restrictions apply)'')"

text \<open>A number in a template string; \<open>None\<close> is \<^verbatim>\<open>NaN\<close>.\<close>

definition showNumber :: "int option \<Rightarrow> string" where
  "showNumber v = (case v of None \<Rightarrow> ''NaN'' | Some i \<Rightarrow> showInt i)"

definition executeFullscreen :: "state \<Rightarrow> string \<Rightarrow> result" where
  "executeFullscreen st params =
     (let tabNum = map_option (\<lambda>v. v - 1) (parseInt params);
          shown = showNumber (map_option (\<lambda>v. v + 1) tabNum)
      in case findTab st tabNum of
           None \<Rightarrow> (Inl (Error (''Tab '' @ shown @ '' not found'')), st)
         | Some t \<Rightarrow>
             (if fullscreenApi st then (Inr (''Tab '' @ shown @ '' in fullscreen''), st)
              else (Inl (Error ''Fullscreen not supported''), st)))"

definition executeRaithaCommand :: "state \<Rightarrow> string \<Rightarrow> string \<Rightarrow> result" where
  "executeRaithaCommand st action params =
     (if action = ''watch'' then executeWatch st params
      else if action = ''lurk'' then executeLurk st params
      else if action = ''refresh'' then executeRefresh st params
      else if action = ''mute'' then executeMute st params
      else if action = ''unmute'' then executeUnmute st params
      else if action = ''scroll'' then executeScroll st params
      else if action = ''fullscreen'' then executeFullscreen st params
      else (Inl (Error (''Unknown Raitha action: '' @ action
              @ ''. Available: watch, lurk, refresh, mute, unmute, scroll, fullscreen'')), st))"


subsection \<open>Rena: data and testing\<close>

text \<open>The unit shown by \<^verbatim>\<open>${match[4] || 'sec'}\<close>.\<close>

text \<open>A string between double quotes.\<close>

definition quoted :: "string \<Rightarrow> string" where
  "quoted s = [CHR 0x22] @ s @ [CHR 0x22]"

definition unitOr :: "string option \<Rightarrow> string" where
  "unitOr u = (case u of None \<Rightarrow> ''sec'' | Some x \<Rightarrow> x)"

definition executeTest :: "state \<Rightarrow> string \<Rightarrow> result" where
  "executeTest st params =
     (case matchUrlNumber params of
        None \<Rightarrow> (Inl (Error ''Format: <url>.<requests_per_sec>''), st)
      | Some (m1, m2) \<Rightarrow>
          (let url = trim m1; rps = parseDigits m2
           in (Inr (''Load test started on '' @ url),
               logInfo st (''Load testing '' @ url @ '' at '' @ showNat rps @ '' requests/sec''))))"

definition executeScrape :: "state \<Rightarrow> string \<Rightarrow> result" where
  "executeScrape st params =
     (case matchTwoParts params of
        None \<Rightarrow> (Inl (Error ''Format: <url>.<target>''), st)
      | Some (m1, m2) \<Rightarrow>
          (let url = trim m1; target = trim m2;
               st1 = logInfo st (''Scraping '' @ target @ '' from '' @ url)
           in (Inr (''Scraping '' @ target @ '' from '' @ url), openTabs st1 url 1 ''scrape'')))"

definition executeCompare :: "state \<Rightarrow> string \<Rightarrow> result" where
  "executeCompare st params =
     (case matchTwoPartsInterval params of
        None \<Rightarrow> (Inl (Error ''Format: <url1>.<url2>.<interval>''), st)
      | Some (m1, m2, m3, m4) \<Rightarrow>
          (let url1 = trim m1; url2 = trim m2; n = parseDigits m3
           in (Inr (''Monitoring comparison every '' @ showNat n @ unitOr m4),
               logInfo st (''Comparing '' @ url1 @ '' vs '' @ url2 @ '' every ''
                           @ showNat n @ unitOr m4))))"

definition executeMonitor :: "state \<Rightarrow> string \<Rightarrow> result" where
  "executeMonitor st params =
     (case matchTwoPartsInterval params of
        None \<Rightarrow> (Inl (Error ''Format: <url>.<keyword>.<check_interval>''), st)
      | Some (m1, m2, m3, m4) \<Rightarrow>
          (let url = trim m1; keyword = trim m2; n = parseDigits m3
           in (Inr (''Monitoring for '' @ quoted keyword @ '' every '' @ showNat n @ unitOr m4),
               logInfo st (''Monitoring '' @ url @ '' for '' @ quoted keyword @ '' every ''
                           @ showNat n @ unitOr m4))))"

definition executeDownload :: "state \<Rightarrow> string \<Rightarrow> result" where
  "executeDownload st params =
     (Inr ''Download initiated (browser security may block)'',
      logInfo st (''Download command: '' @ params))"

definition executePing :: "state \<Rightarrow> string \<Rightarrow> result" where
  "executePing st params =
     (case matchNumberNumberUnit params of
        None \<Rightarrow> (Inl (Error ''Format: <url>.<interval>.<duration>''), st)
      | Some (m1, m2, m3, m4) \<Rightarrow>
          (let url = trim m1; n = parseDigits m2; duration = parseDigits m3
           in (Inr ''Keep-alive ping started'',
               logInfo st (''Pinging '' @ url @ '' every '' @ showNat n @ unitOr m4
                           @ '' for '' @ showNat duration @ unitOr m4))))"

definition executeRenaCommand :: "state \<Rightarrow> string \<Rightarrow> string \<Rightarrow> result" where
  "executeRenaCommand st action params =
     (if action = ''test'' then executeTest st params
      else if action = ''scrape'' then executeScrape st params
      else if action = ''compare'' then executeCompare st params
      else if action = ''monitor'' then executeMonitor st params
      else if action = ''download'' then executeDownload st params
      else if action = ''ping'' then executePing st params
      else (Inl (Error (''Unknown Rena action: '' @ action
              @ ''. Available: test, scrape, compare, monitor, download, ping'')), st))"

subsection \<open>Leaf: schedule and network\<close>

definition executeSchedule :: "state \<Rightarrow> string \<Rightarrow> result" where
  "executeSchedule st params =
     (case matchSchedule params of
        None \<Rightarrow> (Inl (Error ''Format: <command>.<time>.<repeat>''), st)
      | Some (m1, m2, m3) \<Rightarrow>
          (let cmd = trim m1; time = trim m2; repeat = toLowerCase m3;
               taskId = taskIdCounter st;
               st1 = st\<lparr>taskIdCounter := taskId + 1,
                        scheduledTasks := (scheduledTasks st)(taskId \<mapsto>
                          \<lparr>task_command = cmd, task_time = time, task_repeat = repeat,
                           task_active = True\<rparr>)\<rparr>
           in (Inr (''Task scheduled (ID: '' @ showNat taskId @ '')''),
               logInfo st1 (''Scheduled '' @ quoted cmd @ '' at '' @ time @ '' ('' @ repeat @ '')''))))"

definition startLoop :: "state \<Rightarrow> nat \<Rightarrow> state" where
  "startLoop st loopId =
     (case activeLoops st loopId of
        None \<Rightarrow> st
      | Some l \<Rightarrow>
          (let (h, st1) = setInterval st (LoopTick loopId) (loop_delay l)
           in logInfo (st1\<lparr>activeLoops := (activeLoops st1)(loopId \<mapsto> l\<lparr>loop_interval := Some h\<rparr>)\<rparr>)
                (''Loop '' @ showNat loopId @ '' started'')))"

definition executeLoop :: "state \<Rightarrow> string \<Rightarrow> result" where
  "executeLoop st params =
     (case matchNumberNumberUnit params of
        None \<Rightarrow> (Inl (Error ''Format: <command>.<iterations>.<delay>''), st)
      | Some (m1, m2, m3, m4) \<Rightarrow>
          (let cmd = trim m1; n = parseDigits m2;
               d = parseDigits m3 * (if m4 = Some ''min'' then 60000 else 1000);
               loopId = taskIdCounter st;
               st1 = st\<lparr>taskIdCounter := loopId + 1,
                        activeLoops := (activeLoops st)(loopId \<mapsto>
                          \<lparr>loop_command = cmd, loop_iterations = n, loop_delay = d,
                           loop_current = 0, loop_interval = None\<rparr>)\<rparr>
           in (Inr (''Loop started: '' @ showNat n @ '' times with '' @ showNat (d div 1000)
                    @ ''s delay (ID: '' @ showNat loopId @ '')''),
               startLoop st1 loopId)))"

definition executeBatch :: "state \<Rightarrow> string \<Rightarrow> result" where
  "executeBatch st params =
     (Inr ''Batch mode activated'', logInfo st (''Batch execution: '' @ params))"

definition executeParallel :: "state \<Rightarrow> string \<Rightarrow> result" where
  "executeParallel st params =
     (let commands = map trim (splitOn ''|'' params);
          st1 = logInfo st (''Executing '' @ showNat (length commands) @ '' commands in parallel'')
      in (Inr (showNat (length commands) @ '' commands running in parallel''),
          fold (\<lambda>(i, cmd) s. setTimeout s (ParallelCommand cmd i) (i * 100))
            (enumerate 0 commands) st1))"

text \<open>
  \<^verbatim>\<open>executeChainSequence\<close> calls \<^verbatim>\<open>parseAndExecute\<close>, which reaches it again through
  \<^verbatim>\<open>executeChain\<close>. The functions of this cycle take the dispatcher as their first
  argument \<open>pe\<close>; \<open>parseAndExecute\<close> below closes the cycle.
\<close>

definition executeChainSequence ::
  "(state \<Rightarrow> string \<Rightarrow> result) \<Rightarrow> state \<Rightarrow> string list \<Rightarrow> nat \<Rightarrow> state" where
  "executeChainSequence pe st commands index =
     (if index \<ge> length commands then logSuccess st ''Chain completed''
      else (case pe st (commands ! index) of
              (Inr res, st1) \<Rightarrow>
                setTimeout
                  (logSuccess st1 (''Chain step '' @ showNat (index + 1) @ '': '' @ res))
                  (ChainStep commands (index + 1)) 1000
            | (Inl (Error msg), st1) \<Rightarrow>
                logError st1 (''Chain failed at step '' @ showNat (index + 1) @ '': '' @ msg)))"

definition executeChain :: "(state \<Rightarrow> string \<Rightarrow> result) \<Rightarrow> state \<Rightarrow> string \<Rightarrow> result" where
  "executeChain pe st params =
     (let commands = map trim (splitOn ''->'' params);
          st1 = logInfo st (''Chaining '' @ showNat (length commands) @ '' commands'')
      in (Inr (''Chain of '' @ showNat (length commands) @ '' commands started''),
          executeChainSequence pe st1 commands 0))"

definition executeRotate :: "state \<Rightarrow> string \<Rightarrow> result" where
  "executeRotate st params =
     (case matchNumberUnit params of
        None \<Rightarrow> (Inl (Error ''Format: <url_list>.<interval>''), st)
      | Some (m1, m2, m3) \<Rightarrow>
          (let urls = map trim (splitOn '','' m1);
               interval_ms = parseDigits m2 * (if m3 = Some ''min'' then 60000 else 1000)
           in (Inr ''URL rotation started'',
               logInfo st (''Rotating through '' @ showNat (length urls) @ '' URLs every ''
                           @ showNat (interval_ms div 1000) @ ''s''))))"

definition executeLeafCommand ::
  "(state \<Rightarrow> string \<Rightarrow> result) \<Rightarrow> state \<Rightarrow> string \<Rightarrow> string \<Rightarrow> result" where
  "executeLeafCommand pe st action params =
     (if action = ''schedule'' then executeSchedule st params
      else if action = ''loop'' then executeLoop st params
      else if action = ''batch'' then executeBatch st params
      else if action = ''parallel'' then executeParallel st params
      else if action = ''chain'' then executeChain pe st params
      else if action = ''rotate'' then executeRotate st params
      else (Inl (Error (''Unknown Leaf action: '' @ action
              @ ''. Available: schedule, loop, batch, parallel, chain, rotate'')), st))"

subsection \<open>Parsing and dispatch\<close>

definition executeAction ::
  "(state \<Rightarrow> string \<Rightarrow> result) \<Rightarrow> state \<Rightarrow> string \<Rightarrow> string \<Rightarrow> string \<Rightarrow> result" where
  "executeAction pe st iiName action params =
     (if iiName = ''raitha'' then executeRaithaCommand st action params
      else if iiName = ''rena'' then executeRenaCommand st action params
      else if iiName = ''leaf'' then executeLeafCommand pe st action params
      else (Inl (Error (''Unknown II: '' @ iiName)), st))"

text \<open>
  The only command that \<open>executeAction\<close> dispatches before it returns is the first
  command of a chain, which is a part of the parameter string and so shorter than the
  command that carries it. This is what makes the recursion of \<open>parseAndExecute\<close> end.
\<close>

lemma splitOn_not_Nil: "splitOn sep s \<noteq> []"
  by (subst splitOn.simps) (simp split: option.splits prod.splits)

lemma executeAction_cong [fundef_cong]:
  assumes "st = st'" "iiName = iiName'" "action = action'" "params = params'"
    and "\<And>s. pe s (trim (piece0 ''->'' params')) = pe' s (trim (piece0 ''->'' params'))"
  shows "executeAction pe st iiName action params = executeAction pe' st' iiName' action' params'"
proof -
  obtain x xs where sp: "splitOn ''->'' params' = x # xs"
    using splitOn_not_Nil [of "''->''" params'] by (cases "splitOn ''->'' params'") auto
  then have "piece0 ''->'' params' = x"
    by (simp add: piece0_def)
  with assms(5) have "\<And>s. pe s (trim x) = pe' s (trim x)"
    by simp
  then have "executeChain pe st' params' = executeChain pe' st' params'"
    by (simp add: executeChain_def executeChainSequence_def sp)
  with assms(1-4) show ?thesis
    by (simp add: executeAction_def executeLeafCommand_def)
qed

lemma length_trim_le: "length (trim s) \<le> length s"
proof -
  have "length (dropWhile isWhiteSpace (rev (dropWhile isWhiteSpace s)))
          \<le> length (rev (dropWhile isWhiteSpace s))"
    by (rule length_dropWhile_le)
  also have "\<dots> \<le> length s"
    by (simp add: length_dropWhile_le)
  finally show ?thesis
    by (simp add: trim_def)
qed

lemma splitFirst_fst_le: "splitFirst sep s = Some (a, b) \<Longrightarrow> length a \<le> length s"
  by (induction s arbitrary: a) (auto split: if_splits option.splits)

lemma length_piece0_le: "length (piece0 sep s) \<le> length s"
  unfolding piece0_def
  by (subst splitOn.simps) (auto dest: splitFirst_fst_le split: option.splits)

lemma matchSpacesDotPlus_le: "matchSpacesDotPlus r = Some g \<Longrightarrow> length g \<le> length r"
proof (induction r arbitrary: g)
  case Nil
  then show ?case by simp
next
  case (Cons c r)
  have tw: "length (takeWhile (\<lambda>x. \<not> isLineTerminator x) (c # r)) \<le> length (c # r)"
    by (rule length_takeWhile_le)
  show ?case
  proof (cases "matchSpacesDotPlus r")
    case None
    with Cons.prems tw show ?thesis by (auto split: if_splits)
  next
    case (Some g')
    with Cons.IH have "length g' \<le> length r" by simp
    with Cons.prems Some tw show ?thesis by (auto split: if_splits)
  qed
qed

lemma matchParams_shorter: "matchParams s = Some g \<Longrightarrow> length g < length s"
proof (induction s)
  case Nil
  then show ?case by simp
next
  case (Cons c s)
  show ?case
  proof (cases "startsWith (c # s) ''--'' \<and> matchSpacesDotPlus (drop 1 s) \<noteq> None")
    case True
    then obtain g' where g': "matchSpacesDotPlus (drop 1 s) = Some g'" by auto
    with True Cons.prems have "g = g'" by simp
    moreover from g' have "length g' \<le> length (drop 1 s)" by (rule matchSpacesDotPlus_le)
    ultimately show ?thesis by simp
  next
    case False
    with Cons.prems have "matchParams s = Some g"
      by (auto split: if_splits option.splits)
    with Cons.IH show ?thesis by simp
  qed
qed

lemma parseCommand_params_shorter:
  assumes "parseCommand command = Inr (iiName, action, params)"
  shows "length (trim (piece0 ''->'' params)) < length command"
proof -
  from assms obtain g where g: "matchParams command = Some g" and p: "params = trim g"
    by (auto simp: parseCommand_def split: option.splits)
  have "length (trim (piece0 ''->'' params)) \<le> length (piece0 ''->'' params)"
    by (rule length_trim_le)
  also have "\<dots> \<le> length params" by (rule length_piece0_le)
  also have "\<dots> \<le> length g" unfolding p by (rule length_trim_le)
  also have "\<dots> < length command" using g by (rule matchParams_shorter)
  finally show ?thesis .
qed

function parseAndExecute :: "state \<Rightarrow> string \<Rightarrow> result" where
  "parseAndExecute st command =
     (case parseCommand command of
        Inl e \<Rightarrow> (Inl e, st)
      | Inr (iiName, action, params) \<Rightarrow> executeAction parseAndExecute st iiName action params)"
  by pat_completeness auto
termination
  by (relation "measure (\<lambda>(st, command). length command)")
     (auto dest: parseCommand_params_shorter)

declare parseAndExecute.simps [simp del]


subsection \<open>The timer callbacks and the event loop\<close>

text \<open>
  The interval callback of \<^verbatim>\<open>startLoop\<close>. Its closure holds the loop object, which is
  the entry \<^verbatim>\<open>activeLoops[loopId]\<close> until this callback deletes it; the counter is
  incremented and the end is tested only when \<^verbatim>\<open>parseAndExecute\<close> has returned, and a
  throw goes to the \<^verbatim>\<open>catch\<close>.
\<close>

definition loopTick :: "state \<Rightarrow> nat \<Rightarrow> state" where
  "loopTick st loopId =
     (case activeLoops st loopId of
        None \<Rightarrow> st
      | Some l \<Rightarrow>
          (case parseAndExecute st (loop_command l) of
             (Inl (Error msg), st1) \<Rightarrow>
               logError st1 (''Loop '' @ showNat loopId @ '' error: '' @ msg)
           | (Inr res, st1) \<Rightarrow>
               (let l1 = l\<lparr>loop_current := loop_current l + 1\<rparr>;
                    st2 = st1\<lparr>activeLoops := (activeLoops st1)(loopId \<mapsto> l1)\<rparr>
                in if loop_current l1 \<ge> loop_iterations l1
                   then (let st3 = clearInterval st2 (loop_interval l1);
                             st4 = st3\<lparr>activeLoops := (activeLoops st3)(loopId := None)\<rparr>
                         in logSuccess st4 (''Loop '' @ showNat loopId @ '' completed ''
                              @ showNat (loop_iterations l1) @ '' iterations''))
                   else st2)))"

text \<open>The counters \<^verbatim>\<open>commandCount\<close> and \<^verbatim>\<open>errorCount\<close> of invocation \<open>run\<close>.\<close>

definition countCommand :: "nat \<Rightarrow> state \<Rightarrow> state" where
  "countCommand run st =
     st\<lparr>counters := (counters st)[run := (fst (counters st ! run) + 1, snd (counters st ! run))]\<rparr>"

definition countError :: "nat \<Rightarrow> state \<Rightarrow> state" where
  "countError run st =
     st\<lparr>counters := (counters st)[run := (fst (counters st ! run), snd (counters st ! run) + 1)]\<rparr>"

text \<open>The callback of one command of a line that \<^verbatim>\<open>executeCommand\<close> split on \<^verbatim>\<open>|\<close>.\<close>

definition multiCommand :: "state \<Rightarrow> nat \<Rightarrow> string \<Rightarrow> nat \<Rightarrow> state" where
  "multiCommand st run cmd cmdIndex =
     (case parseAndExecute st cmd of
        (Inr res, st1) \<Rightarrow>
          (if res \<noteq> []
           then logSuccess (countCommand run st1)
                  (''Multi-command '' @ showNat (cmdIndex + 1) @ '': '' @ res)
           else st1)
      | (Inl (Error msg), st1) \<Rightarrow>
          logError (countError run st1)
            (''Multi-command '' @ showNat (cmdIndex + 1) @ '': '' @ msg))"

text \<open>The callback of one command of \<^verbatim>\<open>executeParallel\<close>.\<close>

definition parallelCommand :: "state \<Rightarrow> string \<Rightarrow> nat \<Rightarrow> state" where
  "parallelCommand st cmd i =
     (case parseAndExecute st cmd of
        (Inr res, st1) \<Rightarrow> st1
      | (Inl (Error msg), st1) \<Rightarrow>
          logError st1 (''Parallel command '' @ showNat (i + 1) @ '' failed: '' @ msg))"

text \<open>The closing report that \<^verbatim>\<open>executeCommand\<close> schedules after one second.\<close>

definition summary :: "state \<Rightarrow> nat \<Rightarrow> state" where
  "summary st run =
     (let (commandCount, errorCount) = counters st ! run;
          st1 = (if errorCount = 0
                 then logSuccess (logSuccess st ''----'')
                        (''All '' @ showNat commandCount @ '' command(s) executed!'')
                 else logWarning st (''Completed with '' @ showNat errorCount @ '' error(s)''))
      in logInfo st1 ''----'')"

text \<open>\<^verbatim>\<open>iframe.src = iframe.src\<close>: the iframe of node \<open>e\<close> loads again.\<close>

definition reloadFrame :: "state \<Rightarrow> nat \<Rightarrow> state" where
  "reloadFrame st e =
     st\<lparr>elements := (elements st)(e := (elements st e)\<lparr>reloads := reloads (elements st e) + 1\<rparr>)\<rparr>"

fun fire :: "state \<Rightarrow> callback \<Rightarrow> state" where
  "fire st (MultiCommand run cmd cmdIndex) = multiCommand st run cmd cmdIndex"
| "fire st (Summary run) = summary st run"
| "fire st (LoopTick loopId) = loopTick st loopId"
| "fire st (ParallelCommand cmd i) = parallelCommand st cmd i"
| "fire st (ChainStep commands index) = executeChainSequence parseAndExecute st commands index"
| "fire st (ReloadFrame e) = reloadFrame st e"

text \<open>
  One turn of the host's event loop: the pending timer that is due first (the oldest
  one among equals) is taken, the clock moves to its due time, a timeout leaves the
  queue and an interval is queued again one period later, and the callback runs.
\<close>

fun nextTimer :: "timer list \<Rightarrow> timer option" where
  "nextTimer [] = None"
| "nextTimer (t # ts) =
     (case nextTimer ts of
        None \<Rightarrow> Some t
      | Some t' \<Rightarrow> (if due t \<le> due t' then Some t else Some t'))"

definition runNext :: "state \<Rightarrow> state" where
  "runNext st =
     (case nextTimer (timers st) of
        None \<Rightarrow> st
      | Some t \<Rightarrow>
          (let now = max (clock st) (due t);
               others = filter (\<lambda>t'. handle t' \<noteq> handle t) (timers st);
               queue = (case period t of
                          None \<Rightarrow> others
                        | Some d \<Rightarrow> others @ [t\<lparr>due := now + d\<rparr>])
           in fire (st\<lparr>clock := now, timers := queue\<rparr>) (callback t)))"

subsection \<open>Command execution\<close>

text \<open>
  The body of the \<^verbatim>\<open>forEach\<close> over the lines in \<^verbatim>\<open>executeCommand\<close>, for the line at
  \<open>index\<close>, in the invocation \<open>run\<close>.
\<close>

definition executeLine :: "nat \<Rightarrow> nat \<times> string \<Rightarrow> state \<Rightarrow> state" where
  "executeLine run = (\<lambda>(index, line) st.
     (let trimmed = trim line
      in if trimmed = [] \<or> startsWith trimmed ''//'' then st
         else if includesStr trimmed ''|'' \<and> \<not> startsWith trimmed ''Leaf Ex.parallel'' then
           (let multiCommands = map trim (splitOn ''|'' trimmed);
                st1 = logInfo st (''Executing '' @ showNat (length multiCommands)
                                  @ '' commands simultaneously...'')
            in fold (\<lambda>(cmdIndex, cmd) s. setTimeout s (MultiCommand run cmd cmdIndex) (cmdIndex * 200))
                 (enumerate 0 multiCommands) st1)
         else
           (case parseAndExecute st trimmed of
              (Inr res, st1) \<Rightarrow>
                (if res \<noteq> []
                 then logSuccess (countCommand run st1)
                        (''Command '' @ showNat (index + 1) @ '': '' @ res)
                 else st1)
            | (Inl (Error msg), st1) \<Rightarrow>
                logError (countError run st1)
                  (''Command '' @ showNat (index + 1) @ '': '' @ msg))))"

text \<open>\<^verbatim>\<open>executeCommand\<close>; \<open>text\<close> is the value of the command input.\<close>

definition executeCommand :: "state \<Rightarrow> string \<Rightarrow> state" where
  "executeCommand st text =
     (let input = trim text
      in if input = [] then logWarning st ''No command entered!''
         else
           (let st1 = logInfo (logInfo st ''----'') ''Executing commands...'';
                lines = filter (\<lambda>line. trim line \<noteq> []) (splitOn [CHR 0x0A] input);
                run = length (counters st1);
                st2 = st1\<lparr>counters := counters st1 @ [(0, 0)]\<rparr>;
                st3 = fold (executeLine run) (enumerate 0 lines) st2
            in setTimeout st3 (Summary run) 1000))"

text \<open>The state when the page has loaded: no tabs, no tasks, no pending timers.\<close>

definition initialState :: "string \<Rightarrow> bool \<Rightarrow> state" where
  "initialState host fs =
     \<lparr>activeTabs = [],
      elements = (\<lambda>e. \<lparr>dom_id = 0, src = [], muted = None, reloads = 0\<rparr>),
      nextNode = 0, executionGrid = [],
      scheduledTasks = Map.empty, activeLoops = Map.empty, taskIdCounter = 0,
      timers = [], nextHandle = 0, clock = 0, outputContent = [], counters = [],
      hostname = host, fullscreenApi = fs\<rparr>"


text \<open>
  The tabs that \<^verbatim>\<open>openTabs\<close> appends: \<open>n\<close> tabs with the ids \<open>s, s + 1, \<dots>\<close> on the fresh
  nodes \<open>node, node + 1, \<dots>\<close>.
\<close>

definition tabsFrom :: "nat \<Rightarrow> string \<Rightarrow> string \<Rightarrow> nat \<Rightarrow> nat \<Rightarrow> tab list" where
  "tabsFrom node url type s n =
     map (\<lambda>i. \<lparr>tab_id = s + i, tab_url = url, tab_type = type, tab_element = node + i\<rparr>) [0..<n]"

subsection \<open>Notions used by the properties\<close>

text \<open>
  The operations on the tab table: \<^verbatim>\<open>openTabs\<close> (behind watch, lurk, refresh and scrape),
  \<^verbatim>\<open>closeTab\<close> (the close button of a tab) and \<^verbatim>\<open>closeAllTabs\<close> (the Escape key), and
  the state after a sequence of them on a freshly loaded page.
\<close>

datatype tabOp = Open string nat string | Close nat | CloseAll

fun applyTabOp :: "tabOp \<Rightarrow> state \<Rightarrow> state" where
  "applyTabOp (Open url n type) st = openTabs st url n type"
| "applyTabOp (Close index) st = closeTab st index"
| "applyTabOp CloseAll st = closeAllTabs st"

definition afterTabOps :: "string \<Rightarrow> bool \<Rightarrow> tabOp list \<Rightarrow> state" where
  "afterTabOps host fs ops = fold applyTabOp ops (initialState host fs)"

definition isOpen :: "tabOp \<Rightarrow> bool" where
  "isOpen op = (case op of Open url n type \<Rightarrow> True | Close index \<Rightarrow> False | CloseAll \<Rightarrow> False)"

text \<open>The ids of the open tabs, in the order of the tab table.\<close>

definition tabIds :: "state \<Rightarrow> nat list" where
  "tabIds st = map tab_id (activeTabs st)"

text \<open>
  The tab table and the document agree: the grid holds the windows of the open tabs in
  the order of the table, the window of a tab carries the tab's id and was created
  earlier, and no two open tabs share an id.
\<close>

definition tabsConsistent :: "state \<Rightarrow> bool" where
  "tabsConsistent st =
     (executionGrid st = map tab_element (activeTabs st)
      \<and> (\<forall>t \<in> set (activeTabs st).
            dom_id (elements st (tab_element t)) = tab_id t \<and> tab_element t < nextNode st)
      \<and> distinct (tabIds st))"

text \<open>
  The iframes that a mute or unmute command with the parameter string \<open>params\<close> reaches:
  node \<open>e\<close> is the window of the first open tab whose id is \<open>v - 1\<close>, for a
  comma-separated entry that \<^verbatim>\<open>parseInt\<close> reads as the number \<open>v\<close>.
\<close>

definition mutedBy :: "state \<Rightarrow> string \<Rightarrow> nat \<Rightarrow> bool" where
  "mutedBy st params e =
     (\<exists>entry \<in> set (splitOn '','' params). \<exists>v t.
        parseInt (trim entry) = Some v
        \<and> find (\<lambda>t. int (tab_id t) = v - 1) (activeTabs st) = Some t
        \<and> tab_element t = e)"

text \<open>
  The platform that \<^verbatim>\<open>convertToEmbedUrl\<close> recognizes in a URL, by its tests in their
  order, the path segment of each platform's embed URLs, and the embed URL that
  \<^verbatim>\<open>convertYouTubeUrl\<close> builds around a video id.
\<close>

datatype platform = YouTube | Twitch | Vimeo | DailyMotion | Other

definition platformOf :: "string \<Rightarrow> platform" where
  "platformOf url =
     (if includesStr url ''youtube.com'' \<or> includesStr url ''youtu.be'' then YouTube
      else if includesStr url ''twitch.tv'' then Twitch
      else if includesStr url ''vimeo.com'' then Vimeo
      else if includesStr url ''dailymotion.com'' \<or> includesStr url ''dai.ly'' then DailyMotion
      else Other)"

fun embedSegment :: "platform \<Rightarrow> string" where
  "embedSegment YouTube = ''youtube.com/embed/''"
| "embedSegment Twitch = ''player.twitch.tv/''"
| "embedSegment Vimeo = ''player.vimeo.com/video/''"
| "embedSegment DailyMotion = ''dailymotion.com/embed/video/''"
| "embedSegment Other = []"

definition youTubeEmbed :: "string \<Rightarrow> bool \<Rightarrow> string" where
  "youTubeEmbed vid a = ''https://www.youtube.com/embed/'' @ vid
     @ ''?rel=0&modestbranding=1&controls=1&showinfo=0'' @ (if a then ''&autoplay=1&mute=1'' else [])"

text \<open>
  The grammar of a command line, in the words of the specification: the three agent
  names; a position where the action marker \<^verbatim>\<open>Ex.\<close> (in any letter case) is followed by
  a word character, and the first such position; the first position of \<^verbatim>\<open>--\<close>.
\<close>

definition actionAt :: "string \<Rightarrow> bool" where
  "actionAt s = (startsWithI s ''Ex.'' \<and> (case drop 3 s of [] \<Rightarrow> False | c # r \<Rightarrow> isWordChar c))"

definition firstActionAt :: "string \<Rightarrow> nat \<Rightarrow> bool" where
  "firstActionAt command k =
     (actionAt (drop k command) \<and> list_all (\<lambda>j. \<not> actionAt (drop j command)) [0..<k])"

definition firstDashesAt :: "string \<Rightarrow> nat \<Rightarrow> bool" where
  "firstDashesAt command k =
     (startsWith (drop k command) ''--''
      \<and> list_all (\<lambda>j. \<not> startsWith (drop j command) ''--'') [0..<k])"

definition agentNames :: "string list" where
  "agentNames = [''Raitha'', ''Rena'', ''Leaf'']"

text \<open>
  A state \<open>st'\<close> keeps the timers of \<open>st\<close>: the timers pending in \<open>st\<close> are still pending,
  in the same order and before any new one, and the clock has not moved.
\<close>

definition keepsTimers :: "state \<Rightarrow> state \<Rightarrow> bool" where
  "keepsTimers st st' = ((\<exists>new. timers st' = timers st @ new) \<and> clock st' = clock st)"

text \<open>
  A command that schedules nothing: it is not one of the four commands that set
  timers (\<^verbatim>\<open>refresh\<close> of Raitha, and \<^verbatim>\<open>loop\<close>, \<^verbatim>\<open>parallel\<close> and \<^verbatim>\<open>chain\<close> of Leaf). A
  command that does not parse schedules nothing either. A state \<open>st'\<close> has the timers
  of \<open>st\<close>: the same queue, the same next handle and the same time.
\<close>

definition schedulesNothing :: "string \<Rightarrow> bool" where
  "schedulesNothing cmd =
     (case parseCommand cmd of
        Inl e \<Rightarrow> True
      | Inr (iiName, action, params) \<Rightarrow>
          \<not> (iiName = ''raitha'' \<and> action = ''refresh'')
          \<and> \<not> (iiName = ''leaf'' \<and> action \<in> {''loop'', ''parallel'', ''chain''}))"

definition sameTimers :: "state \<Rightarrow> state \<Rightarrow> bool" where
  "sameTimers st st' =
     (timers st' = timers st \<and> nextHandle st' = nextHandle st \<and> clock st' = clock st)"

text \<open>
  The state machine that the specification gives for a chain, run in one go from step
  \<open>index\<close>: past the last command the chain is completed; otherwise the step is
  dispatched, and on success the machine waits 1000 ms and goes on with the next step,
  on failure it is aborted. The wait uses up one timer handle.
\<close>

function chainSpec :: "string list \<Rightarrow> nat \<Rightarrow> state \<Rightarrow> state" where
  "chainSpec commands index st =
     (if length commands \<le> index then logSuccess st ''Chain completed''
      else (case parseAndExecute st (commands ! index) of
              (Inr res, st1) \<Rightarrow>
                chainSpec commands (index + 1)
                  ((logSuccess st1 (''Chain step '' @ showNat (index + 1) @ '': '' @ res))
                     \<lparr>nextHandle := nextHandle st1 + 1, clock := clock st1 + 1000\<rparr>)
            | (Inl (Error msg), st1) \<Rightarrow>
                logError st1 (''Chain failed at step '' @ showNat (index + 1) @ '': '' @ msg)))"
  by pat_completeness auto
termination
  by (relation "measure (\<lambda>(commands, index, st). length commands - index)") auto

declare chainSpec.simps [simp del]

text \<open>
  The timeouts that \<^verbatim>\<open>executeParallel\<close> sets for the commands from index \<open>j\<close> on, when it
  is called at time \<open>t0\<close> and the next free handle is \<open>h0\<close>.
\<close>

definition parallelTimers :: "nat \<Rightarrow> nat \<Rightarrow> nat \<Rightarrow> string list \<Rightarrow> timer list" where
  "parallelTimers h0 t0 j commands =
     map (\<lambda>(i, cmd). \<lparr>handle = h0 + i, due = t0 + i * 100, period = None,
                      callback = ParallelCommand cmd i\<rparr>)
       (enumerate j (drop j commands))"

text \<open>
  The reload intervals that \<^verbatim>\<open>openTabsWithRefresh\<close> sets for the iframes \<open>es\<close>, numbered
  from \<open>k\<close>: \<open>h0\<close> is the next free handle, \<open>t\<close> the time they are due and \<open>d\<close> the period.
\<close>

definition reloadTimers :: "nat \<Rightarrow> nat \<Rightarrow> nat \<Rightarrow> nat \<Rightarrow> nat list \<Rightarrow> timer list" where
  "reloadTimers h0 t d k es =
     map (\<lambda>(i, e). \<lparr>handle = h0 + i, due = t, period = Some d, callback = ReloadFrame e\<rparr>)
       (enumerate k es)"

text \<open>
  Example states for the properties of the scheduler: a freshly loaded page on which a
  parallel command with a failing and a succeeding sub-command has been executed.
\<close>

definition parallelExample :: state where
  "parallelExample =
     snd (executeParallel (initialState ''localhost'' True)
            ''Raitha Ex.watch -- x.1 | Raitha Ex.scroll -- y'')"

text \<open>
  A freshly loaded page on which a chain of three commands has been started, of which
  the second one fails, and the commands of that chain.
\<close>

definition chainExample :: state where
  "chainExample =
     snd (parseAndExecute (initialState ''localhost'' True)
            ''Leaf Ex.chain -- Raitha Ex.scroll -- a -> Raitha Ex.watch -- b.1 -> Raitha Ex.scroll -- c'')"

definition chainExampleCommands :: "string list" where
  "chainExampleCommands = [''Raitha Ex.scroll -- a'', ''Raitha Ex.watch -- b.1'', ''Raitha Ex.scroll -- c'']"

text \<open>
  A freshly loaded page on which the loop of the specification's example has been
  started (three iterations of \<^verbatim>\<open>Raitha Ex.watch test.1\<close>, one second apart); the number
  of error lines in the log; and the state of that loop when \<open>k\<close> ticks have fired and
  none has been counted.
\<close>

definition loopExample :: state where
  "loopExample =
     snd (parseAndExecute (initialState ''localhost'' True)
            ''Leaf Ex.loop -- Raitha Ex.watch test.1.3.1'')"

definition failures :: "state \<Rightarrow> nat" where
  "failures st = length (filter (\<lambda>(l, m). l = Failure) (outputContent st))"

definition loopStuck :: "nat \<Rightarrow> state \<Rightarrow> bool" where
  "loopStuck k st =
     (activeLoops st 0 =
        Some \<lparr>loop_command = ''Raitha Ex.watch test.1'', loop_iterations = 3,
              loop_delay = 1000, loop_current = 0, loop_interval = Some 0\<rparr>
      \<and> timers st = [\<lparr>handle = 0, due = 1000 * (k + 1), period = Some 1000,
                      callback = LoopTick 0\<rparr>]
      \<and> clock st = 1000 * k
      \<and> failures st = k)"

text \<open>
  A page with one open tab on which a loop of three fullscreen requests for that tab
  has been started.
\<close>

definition fullscreenLoop :: state where
  "fullscreenLoop =
     snd (parseAndExecute (openTabs (initialState ''localhost'' True) ''https://vimeo.com/1'' 1 ''watch'')
            ''Leaf Ex.loop -- Raitha Ex.fullscreen -- 1.3.1'')"

section \<open>Properties\<close>

text \<open>
  The recursive string functions are unfolded only where a proof asks for it; closed
  terms are evaluated with the code equations.
\<close>

declare includesStr.simps [simp del] splitFirst.simps [simp del] matchAction.simps [simp del]
  matchSpacesDotPlus.simps [simp del] matchParams.simps [simp del] dotPlusDot.simps [simp del]
  fromLeft.simps [simp del] litDotStarLit.simps [simp del]

subsection \<open>What \<open>openTabs\<close> does to the state\<close>

lemma fold_openTab:
  "fold (\<lambda>i. openTab url type (s + i)) [0..<n] st =
     st\<lparr>elements := (\<lambda>e. if nextNode st \<le> e \<and> e < nextNode st + n
                           then \<lparr>dom_id = s + (e - nextNode st), src = url, muted = None,
                                 reloads = 0\<rparr>
                           else elements st e),
        nextNode := nextNode st + n,
        executionGrid := executionGrid st @ map (\<lambda>i. nextNode st + i) [0..<n],
        activeTabs := activeTabs st @ tabsFrom (nextNode st) url type s n\<rparr>"
proof (induction n)
  case 0
  show ?case by (rule state.equality) (auto simp: tabsFrom_def fun_eq_iff)
next
  case (Suc n)
  have "fold (\<lambda>i. openTab url type (s + i)) [0..<Suc n] st =
          openTab url type (s + n) (fold (\<lambda>i. openTab url type (s + i)) [0..<n] st)"
    by simp
  also have "\<dots> =
     st\<lparr>elements := (\<lambda>e. if nextNode st \<le> e \<and> e < nextNode st + Suc n
                           then \<lparr>dom_id = s + (e - nextNode st), src = url, muted = None,
                                 reloads = 0\<rparr>
                           else elements st e),
        nextNode := nextNode st + Suc n,
        executionGrid := executionGrid st @ map (\<lambda>i. nextNode st + i) [0..<Suc n],
        activeTabs := activeTabs st @ tabsFrom (nextNode st) url type s (Suc n)\<rparr>"
    unfolding Suc.IH
    by (auto simp: openTab_def tabsFrom_def fun_eq_iff Let_def intro!: state.equality)
  finally show ?case .
qed

lemma activeTabs_openTabs:
  "activeTabs (openTabs st url n type) =
     activeTabs st @ tabsFrom (nextNode st) url type (startId st) n"
  by (simp add: openTabs_def fold_openTab logSuccess_def)

lemma elements_openTabs:
  "elements (openTabs st url n type) =
     (\<lambda>e. if nextNode st \<le> e \<and> e < nextNode st + n
          then \<lparr>dom_id = startId st + (e - nextNode st), src = url, muted = None, reloads = 0\<rparr>
          else elements st e)"
  by (simp add: openTabs_def fold_openTab logSuccess_def)

subsection \<open>The watch example\<close>

lemma watchLine_parse:
  "parseCommand ''Raitha Ex.watch -- https://youtube.com/watch?v=abc123.2'' =
     Inr (''raitha'', ''watch'', ''https://youtube.com/watch?v=abc123.2'')"
  by code_simp

lemma watchLine_match:
  "matchUrlNumber ''https://youtube.com/watch?v=abc123.2'' =
     Some (''https://youtube.com/watch?v=abc123'', ''2'')"
  by code_simp

lemma watchLine_url:
  "trim ''https://youtube.com/watch?v=abc123'' = ''https://youtube.com/watch?v=abc123''"
  "parseDigits ''2'' = 2"
  "isValidStreamingUrl ''https://youtube.com/watch?v=abc123''"
  "includesStr ''https://youtube.com/watch?v=abc123'' ''youtube.com''"
  "convertYouTubeUrl ''https://youtube.com/watch?v=abc123'' False =
     Inr ''https://www.youtube.com/embed/abc123?rel=0&modestbranding=1&controls=1&showinfo=0''"
  "showNat 2 = ''2''"
  by code_simp+

lemma watchLine_dispatch:
  "parseAndExecute st ''Raitha Ex.watch -- https://youtube.com/watch?v=abc123.2'' =
     (Inr ''Opened 2 tab(s) watching: https://youtube.com/watch?v=abc123'',
      openTabs st
        ''https://www.youtube.com/embed/abc123?rel=0&modestbranding=1&controls=1&showinfo=0''
        2 ''watch'')"
  by (simp add: parseAndExecute.simps watchLine_parse executeAction_def
      executeRaithaCommand_def executeWatch_def watchLine_match watchLine_url
      convertToEmbedUrl_def)

lemma watchLine_input:
  "trim ''Raitha Ex.watch -- https://youtube.com/watch?v=abc123.2'' =
     ''Raitha Ex.watch -- https://youtube.com/watch?v=abc123.2''"
  "splitOn [CHR 0x0A] ''Raitha Ex.watch -- https://youtube.com/watch?v=abc123.2'' =
     [''Raitha Ex.watch -- https://youtube.com/watch?v=abc123.2'']"
  "\<not> startsWith ''Raitha Ex.watch -- https://youtube.com/watch?v=abc123.2'' ''//''"
  "\<not> includesStr ''Raitha Ex.watch -- https://youtube.com/watch?v=abc123.2'' ''|''"
  by code_simp+

lemma watchLine_command:
  "activeTabs (executeCommand st ''Raitha Ex.watch -- https://youtube.com/watch?v=abc123.2'') =
     activeTabs (openTabs st
       ''https://www.youtube.com/embed/abc123?rel=0&modestbranding=1&controls=1&showinfo=0''
       2 ''watch'')"
  "elements (executeCommand st ''Raitha Ex.watch -- https://youtube.com/watch?v=abc123.2'') =
     elements (openTabs st
       ''https://www.youtube.com/embed/abc123?rel=0&modestbranding=1&controls=1&showinfo=0''
       2 ''watch'')"
  by (simp_all add: executeCommand_def watchLine_input Let_def enumerate_eq_zip
      executeLine_def watchLine_dispatch logSuccess_def countCommand_def setTimeout_def
      logInfo_def activeTabs_openTabs elements_openTabs startId_def cong: if_cong)

text \<open>
  Claim C8. When no tab is open, executing the input line
  \<^verbatim>\<open>Raitha Ex.watch -- https://youtube.com/watch?v=abc123.2\<close> leaves exactly two tabs in
  the tab table, with the ids 0 and 1 and the type \<^verbatim>\<open>watch\<close>, and the URL of each tab
  and the \<^verbatim>\<open>src\<close> of its iframe are exactly
  \<^verbatim>\<open>https://www.youtube.com/embed/abc123?rel=0&modestbranding=1&controls=1&showinfo=0\<close>,
  without the parameters for muted autoplay.
\<close>

theorem watch_example_opens_two_tabs:
  assumes "activeTabs st = []"
  shows "map (\<lambda>t. (tab_id t, tab_url t, tab_type t,
                   src (elements (executeCommand st
                     ''Raitha Ex.watch -- https://youtube.com/watch?v=abc123.2'') (tab_element t))))
           (activeTabs (executeCommand st
              ''Raitha Ex.watch -- https://youtube.com/watch?v=abc123.2''))
         = [(0, ''https://www.youtube.com/embed/abc123?rel=0&modestbranding=1&controls=1&showinfo=0'',
             ''watch'',
             ''https://www.youtube.com/embed/abc123?rel=0&modestbranding=1&controls=1&showinfo=0''),
            (1, ''https://www.youtube.com/embed/abc123?rel=0&modestbranding=1&controls=1&showinfo=0'',
             ''watch'',
             ''https://www.youtube.com/embed/abc123?rel=0&modestbranding=1&controls=1&showinfo=0'')]"
proof -
  have u: "[0..<2] = [0, Suc 0]"
    by (simp add: upt_rec)
  show ?thesis
    using assms
    by (simp add: watchLine_command activeTabs_openTabs elements_openTabs tabsFrom_def
        startId_def u)
qed

theorem watch_example_opens_two_tabs_witness:
  "activeTabs (initialState ''localhost'' True) = []
   \<and> map (\<lambda>t. (tab_id t, tab_url t, tab_type t,
                 src (elements (executeCommand (initialState ''localhost'' True)
                   ''Raitha Ex.watch -- https://youtube.com/watch?v=abc123.2'') (tab_element t))))
       (activeTabs (executeCommand (initialState ''localhost'' True)
          ''Raitha Ex.watch -- https://youtube.com/watch?v=abc123.2''))
     = [(0, ''https://www.youtube.com/embed/abc123?rel=0&modestbranding=1&controls=1&showinfo=0'',
         ''watch'',
         ''https://www.youtube.com/embed/abc123?rel=0&modestbranding=1&controls=1&showinfo=0''),
        (1, ''https://www.youtube.com/embed/abc123?rel=0&modestbranding=1&controls=1&showinfo=0'',
         ''watch'',
         ''https://www.youtube.com/embed/abc123?rel=0&modestbranding=1&controls=1&showinfo=0'')]"
proof -
  have e: "activeTabs (initialState ''localhost'' True) = []"
    by (simp add: initialState_def)
  show ?thesis
    by (rule conjI [OF e watch_example_opens_two_tabs [OF e]])
qed

subsection \<open>The ids of the tabs\<close>

lemma Math_max_eq: "xs \<noteq> [] \<Longrightarrow> Math_max xs = Max (set xs)"
proof (induction xs)
  case Nil
  then show ?case by simp
next
  case (Cons x xs)
  show ?case
  proof (cases "xs = []")
    case True
    then show ?thesis by simp
  next
    case False
    with Cons.IH have "Math_max xs = Max (set xs)" by simp
    with False show ?thesis by simp
  qed
qed

lemma startId_eq:
  "startId st = (if activeTabs st = [] then 0 else Max (set (tabIds st)) + 1)"
  by (simp add: startId_def tabIds_def Math_max_eq)

lemma startId_greater: "i \<in> set (tabIds st) \<Longrightarrow> i < startId st"
proof -
  assume i: "i \<in> set (tabIds st)"
  then have ne: "activeTabs st \<noteq> []" by (auto simp: tabIds_def)
  from i have "i \<le> Max (set (tabIds st))" by simp
  with ne show ?thesis by (simp add: startId_eq)
qed

lemma tabIds_openTabs:
  "tabIds (openTabs st url n type) = tabIds st @ [startId st..<startId st + n]"
proof -
  have "map tab_id (tabsFrom (nextNode st) url type (startId st) n) = map (\<lambda>i. i + startId st) [0..<n]"
    by (simp add: tabsFrom_def add.commute)
  also have "\<dots> = [startId st..<startId st + n]"
    by (simp add: map_add_upt add.commute)
  finally show ?thesis
    by (simp add: tabIds_def activeTabs_openTabs)
qed

lemma close_lists:
  assumes "\<forall>t \<in> set ts. d (el t) = tid t" "distinct (map tid ts)"
  shows "case find (\<lambda>e. d e = i) (map el ts) of
           None \<Rightarrow> filter (\<lambda>t. tid t \<noteq> i) ts = ts
         | Some e \<Rightarrow> remove1 e (map el ts) = map el (filter (\<lambda>t. tid t \<noteq> i) ts)"
  using assms
proof (induction ts)
  case Nil
  then show ?case by simp
next
  case (Cons t ts)
  show ?case
  proof (cases "tid t = i")
    case True
    with Cons.prems have "i \<notin> tid ` set ts" by simp
    then have "\<forall>u \<in> set ts. tid u \<noteq> i" by blast
    then have "filter (\<lambda>t. tid t \<noteq> i) ts = ts" by (simp add: filter_id_conv)
    with True Cons.prems show ?thesis by simp
  next
    case False
    with Cons.prems have dt: "d (el t) \<noteq> i" by simp
    from Cons have IH: "case find (\<lambda>e. d e = i) (map el ts) of
           None \<Rightarrow> filter (\<lambda>t. tid t \<noteq> i) ts = ts
         | Some e \<Rightarrow> remove1 e (map el ts) = map el (filter (\<lambda>t. tid t \<noteq> i) ts)" by simp
    show ?thesis
    proof (cases "find (\<lambda>e. d e = i) (map el ts)")
      case None
      with IH False dt show ?thesis by simp
    next
      case (Some e)
      then have "d e = i" by (auto simp: find_Some_iff)
      with dt have "e \<noteq> el t" by auto
      with IH Some False dt show ?thesis by simp
    qed
  qed
qed

lemma activeTabs_closeTab:
  assumes "tabsConsistent st"
  shows "activeTabs (closeTab st index) = filter (\<lambda>t. tab_id t \<noteq> index) (activeTabs st)"
    and "executionGrid (closeTab st index) = map tab_element (filter (\<lambda>t. tab_id t \<noteq> index) (activeTabs st))"
proof -
  from assms have a: "\<forall>t \<in> set (activeTabs st). (\<lambda>e. dom_id (elements st e)) (tab_element t) = tab_id t"
    and b: "distinct (map tab_id (activeTabs st))"
    and g: "executionGrid st = map tab_element (activeTabs st)"
    by (auto simp: tabsConsistent_def tabIds_def)
  note c = close_lists [where d = "\<lambda>e. dom_id (elements st e)" and el = tab_element
      and tid = tab_id and ts = "activeTabs st" and i = index, OF a b]
  show "activeTabs (closeTab st index) = filter (\<lambda>t. tab_id t \<noteq> index) (activeTabs st)"
    using c by (auto simp: closeTab_def getTabElement_def g split: option.splits)
  show "executionGrid (closeTab st index) = map tab_element (filter (\<lambda>t. tab_id t \<noteq> index) (activeTabs st))"
    using c by (auto simp: closeTab_def getTabElement_def g split: option.splits)
qed

lemma tabsConsistent_openTabs:
  assumes "tabsConsistent st"
  shows "tabsConsistent (openTabs st url n type)"
proof -
  have d: "distinct (tabIds st @ [startId st..<startId st + n])"
    using assms startId_greater [of _ st] by (fastforce simp: tabsConsistent_def)
  have g: "executionGrid (openTabs st url n type) = executionGrid st @ map (\<lambda>i. nextNode st + i) [0..<n]"
    and nn: "nextNode (openTabs st url n type) = nextNode st + n"
    by (simp_all add: openTabs_def fold_openTab logSuccess_def)
  show ?thesis
    unfolding tabsConsistent_def tabIds_openTabs
    using assms d
    by (auto simp: g nn activeTabs_openTabs elements_openTabs tabsFrom_def tabsConsistent_def)
qed

lemma tabsConsistent_closeTab:
  assumes "tabsConsistent st"
  shows "tabsConsistent (closeTab st index)"
proof -
  have e: "elements (closeTab st index) = elements st" "nextNode (closeTab st index) = nextNode st"
    by (auto simp: closeTab_def split: option.splits)
  show ?thesis
    using assms
    by (auto simp: tabsConsistent_def tabIds_def activeTabs_closeTab [OF assms] e distinct_map_filter)
qed

lemma tabsConsistent_closeAllTabs: "tabsConsistent (closeAllTabs st)"
  by (simp add: tabsConsistent_def closeAllTabs_def logInfo_def tabIds_def)

lemma tabsConsistent_initial: "tabsConsistent (initialState host fs)"
  by (simp add: tabsConsistent_def initialState_def tabIds_def)

lemma tabsConsistent_ops:
  "tabsConsistent st \<Longrightarrow> tabsConsistent (fold applyTabOp ops st)"
proof (induction ops arbitrary: st)
  case Nil
  then show ?case by simp
next
  case (Cons op ops)
  have "tabsConsistent (applyTabOp op st)"
    using Cons.prems
    by (cases op) (simp_all add: tabsConsistent_openTabs tabsConsistent_closeTab tabsConsistent_closeAllTabs)
  then show ?case using Cons.IH by simp
qed

lemma startId_upt:
  assumes "tabIds st = [0..<m]"
  shows "startId st = m"
proof (cases "m = 0")
  case True
  with assms show ?thesis by (simp add: startId_eq tabIds_def)
next
  case False
  then have "Max {0..<m} = m - 1"
    by (auto intro: Max_eqI)
  moreover have "length (tabIds st) = m"
    by (simp add: assms)
  with False have "activeTabs st \<noteq> []"
    by (auto simp: tabIds_def)
  ultimately show ?thesis
    using False assms by (simp add: startId_eq)
qed

lemma tabIds_opens_only:
  assumes "tabIds st = [0..<length (tabIds st)]" "list_all isOpen ops"
  shows "tabIds (fold applyTabOp ops st) = [0..<length (tabIds (fold applyTabOp ops st))]"
  using assms
proof (induction ops arbitrary: st)
  case Nil
  then show ?case by simp
next
  case (Cons op ops)
  from Cons.prems(2) obtain url n type where op: "op = Open url n type"
    by (cases op) (auto simp: isOpen_def)
  let ?m = "length (tabIds st)"
  have s: "startId st = ?m" using Cons.prems(1) by (rule startId_upt)
  have "tabIds (openTabs st url n type) = tabIds st @ [?m..<?m + n]"
    by (simp add: tabIds_openTabs s)
  also have "\<dots> = [0..<?m] @ [?m..<?m + n]"
    by (subst Cons.prems(1)) (rule refl)
  also have "\<dots> = [0..<?m + n]"
    by (rule upt_add_eq_append [symmetric]) simp
  finally have "tabIds (openTabs st url n type) = [0..<?m + n]" .
  then have e: "tabIds (openTabs st url n type) = [0..<length (tabIds (openTabs st url n type))]"
    by (metis length_upt diff_zero)
  from Cons.prems(2) have "list_all isOpen ops" by simp
  from Cons.IH [OF e this] show ?case
    by (simp add: op)
qed

text \<open>
  Claim C2, as amended. After any sequence of open and close operations on the tab table
  of a freshly loaded page:
  \<^item> opening \<open>n\<close> tabs appends the ids \<open>s, \<dots>, s + n - 1\<close>, where \<open>s\<close> is 0 when no tab is
    open and the greatest id of an open tab plus one otherwise;
  \<^item> when the \<open>m\<close> open tabs carry the ids \<open>0, \<dots>, m - 1\<close>, the new ids are
    \<open>m, \<dots>, m + n - 1\<close>, and the open tabs do carry these ids when the sequence
    consists of opens only;
  \<^item> closing a tab \<open>c\<close> that is not the one with the greatest id removes exactly \<open>c\<close>, and
    opening \<open>k\<close> tabs next assigns the ids that continue after the greatest remaining
    id, none of which is \<open>c\<close>.
\<close>

theorem tab_ids_open_close:
  "tabIds (openTabs (afterTabOps host fs ops) url n type) =
     tabIds (afterTabOps host fs ops) @
       [startId (afterTabOps host fs ops)..<startId (afterTabOps host fs ops) + n]
   \<and> startId (afterTabOps host fs ops) =
       (if tabIds (afterTabOps host fs ops) = [] then 0
        else Max (set (tabIds (afterTabOps host fs ops))) + 1)
   \<and> (tabIds (afterTabOps host fs ops) = [0..<m] \<longrightarrow>
        tabIds (openTabs (afterTabOps host fs ops) url n type) = [0..<m] @ [m..<m + n])
   \<and> (list_all isOpen ops \<longrightarrow>
        tabIds (afterTabOps host fs ops) = [0..<length (tabIds (afterTabOps host fs ops))])
   \<and> (c \<in> set (tabIds (afterTabOps host fs ops)) \<and> c < Max (set (tabIds (afterTabOps host fs ops))) \<longrightarrow>
        tabIds (closeTab (afterTabOps host fs ops) c) = filter (\<lambda>i. i \<noteq> c) (tabIds (afterTabOps host fs ops))
        \<and> tabIds (openTabs (closeTab (afterTabOps host fs ops) c) url k type) =
            tabIds (closeTab (afterTabOps host fs ops) c) @
              [Max (set (tabIds (closeTab (afterTabOps host fs ops) c))) + 1 ..<
               Max (set (tabIds (closeTab (afterTabOps host fs ops) c))) + 1 + k]
        \<and> c \<notin> set (tabIds (openTabs (closeTab (afterTabOps host fs ops) c) url k type)))"
proof -
  let ?st = "afterTabOps host fs ops"
  have cons: "tabsConsistent ?st"
    unfolding afterTabOps_def by (rule tabsConsistent_ops [OF tabsConsistent_initial])
  have 1: "tabIds (openTabs ?st url n type) = tabIds ?st @ [startId ?st..<startId ?st + n]"
    by (rule tabIds_openTabs)
  have 2: "startId ?st = (if tabIds ?st = [] then 0 else Max (set (tabIds ?st)) + 1)"
    by (simp add: startId_eq tabIds_def)
  have 3: "tabIds ?st = [0..<m] \<longrightarrow> tabIds (openTabs ?st url n type) = [0..<m] @ [m..<m + n]"
  proof
    assume h: "tabIds ?st = [0..<m]"
    from startId_upt [OF h] h show "tabIds (openTabs ?st url n type) = [0..<m] @ [m..<m + n]"
      by (simp add: tabIds_openTabs)
  qed
  have i: "tabIds (initialState host fs) = [0..<length (tabIds (initialState host fs))]"
    by (simp add: initialState_def tabIds_def)
  have 4: "list_all isOpen ops \<longrightarrow> tabIds ?st = [0..<length (tabIds ?st)]"
    unfolding afterTabOps_def by (rule impI) (rule tabIds_opens_only [OF i])
  have 5: "tabIds (closeTab ?st c) = filter (\<lambda>i. i \<noteq> c) (tabIds ?st)
        \<and> tabIds (openTabs (closeTab ?st c) url k type) =
            tabIds (closeTab ?st c) @
              [Max (set (tabIds (closeTab ?st c))) + 1 ..< Max (set (tabIds (closeTab ?st c))) + 1 + k]
        \<and> c \<notin> set (tabIds (openTabs (closeTab ?st c) url k type))"
    if c: "c \<in> set (tabIds ?st)" "c < Max (set (tabIds ?st))"
  proof -
    let ?cl = "closeTab ?st c"
    have ids: "tabIds ?cl = filter (\<lambda>i. i \<noteq> c) (tabIds ?st)"
      by (simp add: tabIds_def activeTabs_closeTab [OF cons] filter_map o_def)
    from c(1) have ne: "tabIds ?st \<noteq> []" by auto
    then have "Max (set (tabIds ?st)) \<in> set (tabIds ?st)" by (intro Max_in) auto
    with c(2) have mx: "Max (set (tabIds ?st)) \<in> set (tabIds ?cl)" by (simp add: ids)
    then have ne': "tabIds ?cl \<noteq> []" by auto
    have s: "startId ?cl = Max (set (tabIds ?cl)) + 1"
      using ne' by (simp add: startId_eq tabIds_def)
    have op: "tabIds (openTabs ?cl url k type) =
            tabIds ?cl @ [Max (set (tabIds ?cl)) + 1 ..< Max (set (tabIds ?cl)) + 1 + k]"
      by (simp add: tabIds_openTabs s)
    from mx have "Max (set (tabIds ?st)) \<le> Max (set (tabIds ?cl))" by simp
    with c(2) have "c < Max (set (tabIds ?cl)) + 1" by simp
    then have "c \<notin> set (tabIds (openTabs ?cl url k type))"
      by (simp add: op ids)
    with ids op show ?thesis by simp
  qed
  have 6: "c \<in> set (tabIds ?st) \<and> c < Max (set (tabIds ?st)) \<longrightarrow>
        tabIds (closeTab ?st c) = filter (\<lambda>i. i \<noteq> c) (tabIds ?st)
        \<and> tabIds (openTabs (closeTab ?st c) url k type) =
            tabIds (closeTab ?st c) @
              [Max (set (tabIds (closeTab ?st c))) + 1 ..< Max (set (tabIds (closeTab ?st c))) + 1 + k]
        \<and> c \<notin> set (tabIds (openTabs (closeTab ?st c) url k type))"
  proof (rule impI)
    assume a: "c \<in> set (tabIds ?st) \<and> c < Max (set (tabIds ?st))"
    then have "c \<in> set (tabIds ?st)" "c < Max (set (tabIds ?st))" by simp_all
    then show "tabIds (closeTab ?st c) = filter (\<lambda>i. i \<noteq> c) (tabIds ?st)
        \<and> tabIds (openTabs (closeTab ?st c) url k type) =
            tabIds (closeTab ?st c) @
              [Max (set (tabIds (closeTab ?st c))) + 1 ..< Max (set (tabIds (closeTab ?st c))) + 1 + k]
        \<and> c \<notin> set (tabIds (openTabs (closeTab ?st c) url k type))"
      by (rule 5)
  qed
  show ?thesis
    by (rule conjI 1 2 3 4 6)+
qed

lemma ops_example:
  "tabIds (afterTabOps ''localhost'' True [Open ''https://vimeo.com/1'' 3 ''watch'']) = [0, 1, 2]"
  by code_simp

theorem tab_ids_open_close_witness:
  "tabIds (afterTabOps ''localhost'' True [Open ''https://vimeo.com/1'' 3 ''watch'']) = [0..<3]
   \<and> list_all isOpen [Open ''https://vimeo.com/1'' 3 ''watch'']
   \<and> 1 \<in> set (tabIds (afterTabOps ''localhost'' True [Open ''https://vimeo.com/1'' 3 ''watch'']))
   \<and> 1 < Max (set (tabIds (afterTabOps ''localhost'' True [Open ''https://vimeo.com/1'' 3 ''watch''])))
   \<and> tabIds (openTabs (afterTabOps ''localhost'' True [Open ''https://vimeo.com/1'' 3 ''watch''])
         ''https://vimeo.com/2'' 2 ''lurk'') = [0, 1, 2, 3, 4]
   \<and> tabIds (openTabs (closeTab (afterTabOps ''localhost'' True [Open ''https://vimeo.com/1'' 3 ''watch'']) 1)
         ''https://vimeo.com/2'' 2 ''lurk'') = [0, 2, 3, 4]"
proof -
  let ?ops = "[Open ''https://vimeo.com/1'' 3 ''watch'']"
  let ?st = "afterTabOps ''localhost'' True ?ops"
  have u: "[0..<3] = [0, 1, 2::nat]" "[3..<5] = [3, 4::nat]" "[3..<3 + 2] = [3, 4::nat]"
    by (simp_all add: upt_rec)
  have h1: "tabIds ?st = [0..<3]" by (simp add: ops_example u)
  have h2: "list_all isOpen ?ops" by (simp add: isOpen_def)
  have h3: "1 \<in> set (tabIds ?st) \<and> 1 < Max (set (tabIds ?st))" by (simp add: ops_example)
  note t = tab_ids_open_close [of "''localhost''" True ?ops "''https://vimeo.com/2''" 2 "''lurk''" 3 1 2]
  from t h1 have a: "tabIds (openTabs ?st ''https://vimeo.com/2'' 2 ''lurk'') = [0, 1, 2, 3, 4]"
    by (simp add: u)
  from t h3 have "tabIds (openTabs (closeTab ?st 1) ''https://vimeo.com/2'' 2 ''lurk'') =
       filter (\<lambda>i. i \<noteq> 1) (tabIds ?st) @
         [Max (set (filter (\<lambda>i. i \<noteq> 1) (tabIds ?st))) + 1 ..< Max (set (filter (\<lambda>i. i \<noteq> 1) (tabIds ?st))) + 1 + 2]"
    by metis
  then have b: "tabIds (openTabs (closeTab ?st 1) ''https://vimeo.com/2'' 2 ''lurk'') = [0, 2, 3, 4]"
    by (simp add: ops_example u)
  from h1 h2 h3 a b show ?thesis by blast
qed

text \<open>
  Claim C2 as stated fails after a close: with the tabs 0, 1, 2 open and tab 1 closed,
  two tabs exist, and the next tab opened gets the id 3, not the id 2.
\<close>

theorem tab_ids_open_close_counterexample:
  "length (activeTabs (closeTab (openTabs (initialState ''localhost'' True)
       ''https://vimeo.com/1'' 3 ''watch'') 1)) = 2
   \<and> tabIds (openTabs (closeTab (openTabs (initialState ''localhost'' True)
       ''https://vimeo.com/1'' 3 ''watch'') 1) ''https://vimeo.com/2'' 1 ''watch'') = [0, 2, 3]"
  by code_simp

subsection \<open>Timers set by the handlers\<close>

lemma fold_setTimeout:
  "fold (\<lambda>(i, c) s. setTimeout s (cb i c) (d i)) (enumerate 0 cs) st =
     st\<lparr>timers := timers st @
          map (\<lambda>(i, c). \<lparr>handle = nextHandle st + i, due = clock st + d i, period = None,
                         callback = cb i c\<rparr>) (enumerate 0 cs),
        nextHandle := nextHandle st + length cs\<rparr>"
proof (induction cs rule: rev_induct)
  case Nil
  show ?case by simp
next
  case (snoc c cs)
  have "fold (\<lambda>(i, c) s. setTimeout s (cb i c) (d i)) (enumerate 0 (cs @ [c])) st =
          setTimeout (fold (\<lambda>(i, c) s. setTimeout s (cb i c) (d i)) (enumerate 0 cs) st)
            (cb (length cs) c) (d (length cs))"
    by (simp add: enumerate_append_eq)
  then show ?case
    unfolding snoc.IH by (simp add: enumerate_append_eq setTimeout_def)
qed

lemma fold_setInterval:
  "fold (\<lambda>t s. snd (setInterval s (cb t) d)) ts st =
     st\<lparr>timers := timers st @
          map (\<lambda>(i, t). \<lparr>handle = nextHandle st + i, due = clock st + d, period = Some d,
                         callback = cb t\<rparr>) (enumerate 0 ts),
        nextHandle := nextHandle st + length ts\<rparr>"
proof (induction ts rule: rev_induct)
  case Nil
  show ?case by simp
next
  case (snoc t ts)
  have "fold (\<lambda>t s. snd (setInterval s (cb t) d)) (ts @ [t]) st =
          snd (setInterval (fold (\<lambda>t s. snd (setInterval s (cb t) d)) ts st) (cb t) d)"
    by simp
  then show ?case
    unfolding snoc.IH by (simp add: enumerate_append_eq setInterval_def)
qed

lemma openTabs_frame:
  "timers (openTabs st url n type) = timers st"
  "nextHandle (openTabs st url n type) = nextHandle st"
  "clock (openTabs st url n type) = clock st"
  "activeLoops (openTabs st url n type) = activeLoops st"
  "scheduledTasks (openTabs st url n type) = scheduledTasks st"
  "taskIdCounter (openTabs st url n type) = taskIdCounter st"
  "counters (openTabs st url n type) = counters st"
  "hostname (openTabs st url n type) = hostname st"
  "fullscreenApi (openTabs st url n type) = fullscreenApi st"
  by (simp_all add: openTabs_def fold_openTab logSuccess_def)

lemma openTabsWithRefresh_timers:
  "timers (openTabsWithRefresh st url d n) =
     timers st @
       map (\<lambda>(i, t). \<lparr>handle = nextHandle st + i, due = clock st + d, period = Some d,
                      callback = ReloadFrame (tab_element t)\<rparr>)
         (enumerate 0 (activeTabs (openTabs st url n ''refresh'')))"
  and openTabsWithRefresh_tabs:
  "activeTabs (openTabsWithRefresh st url d n) = activeTabs (openTabs st url n ''refresh'')"
  by (simp_all add: openTabsWithRefresh_def Let_def fold_setInterval openTabs_frame)

lemma nextTimer_mem: "nextTimer ts = Some t \<Longrightarrow> t \<in> set ts"
  by (induction ts arbitrary: t) (auto split: option.splits if_splits)

lemma nextTimer_head:
  assumes "\<forall>t' \<in> set ts. due t \<le> due t'"
  shows "nextTimer (t # ts) = Some t"
proof (cases "nextTimer ts")
  case None
  then show ?thesis by simp
next
  case (Some t')
  with assms nextTimer_mem [OF Some] show ?thesis by simp
qed

lemma reloadTimers_mem:
  assumes "tm \<in> set (reloadTimers h0 t d k es)"
  shows "h0 + k \<le> handle tm \<and> handle tm < h0 + k + length es \<and> due tm = t"
  using assms by (auto simp: reloadTimers_def in_set_enumerate_eq)

lemma reloadTimers_Cons:
  "reloadTimers h0 t d k (e # es) =
     \<lparr>handle = h0 + k, due = t, period = Some d, callback = ReloadFrame e\<rparr>
       # reloadTimers h0 t d (Suc k) es"
  by (simp add: reloadTimers_def)

lemma reloadTimers_snoc:
  "reloadTimers h0 t d 0 (es @ [e]) =
     reloadTimers h0 t d 0 es
       @ [\<lparr>handle = h0 + length es, due = t, period = Some d, callback = ReloadFrame e\<rparr>]"
  by (simp add: reloadTimers_def enumerate_append_eq)

lemma reload_turn:
  assumes q: "timers s = reloadTimers h0 t d j (drop j es) @ reloadTimers h0 (t + d) d 0 (take j es)"
    and j: "j < length es"
    and c: "clock s \<le> t"
  shows "runNext s =
           s\<lparr>clock := t,
             timers := reloadTimers h0 t d (Suc j) (drop (Suc j) es)
                         @ reloadTimers h0 (t + d) d 0 (take (Suc j) es),
             elements := (elements s)(es ! j :=
                (elements s (es ! j))\<lparr>reloads := reloads (elements s (es ! j)) + 1\<rparr>)\<rparr>"
proof -
  let ?tm = "\<lparr>handle = h0 + j, due = t, period = Some d, callback = ReloadFrame (es ! j)\<rparr>"
  let ?later = "reloadTimers h0 t d (Suc j) (drop (Suc j) es)"
  let ?done = "reloadTimers h0 (t + d) d 0 (take j es)"
  from j have dr: "drop j es = es ! j # drop (Suc j) es"
    by (simp add: Cons_nth_drop_Suc)
  have ts: "timers s = ?tm # (?later @ ?done)"
    unfolding q dr reloadTimers_Cons by simp
  have l: "\<forall>t' \<in> set ?later. h0 + Suc j \<le> handle t' \<and> due t' = t"
    using reloadTimers_mem by blast
  have dn: "\<forall>t' \<in> set ?done. handle t' < h0 + j \<and> due t' = t + d"
    using reloadTimers_mem [of _ h0 "t + d" d 0 "take j es"] j by auto
  from l dn have "\<forall>t' \<in> set (?later @ ?done). due ?tm \<le> due t'" by auto
  then have n: "nextTimer (timers s) = Some ?tm"
    unfolding ts by (rule nextTimer_head)
  from l dn have "\<forall>t' \<in> set (?later @ ?done). handle t' \<noteq> h0 + j" by auto
  then have f: "filter (\<lambda>t'. handle t' \<noteq> h0 + j) (?later @ ?done) = ?later @ ?done"
    by (simp only: filter_id_conv) 
  have tk: "reloadTimers h0 (t + d) d 0 (take (Suc j) es) =
              ?done @ [\<lparr>handle = h0 + j, due = t + d, period = Some d,
                        callback = ReloadFrame (es ! j)\<rparr>]"
    using j by (simp add: take_Suc_conv_app_nth reloadTimers_snoc min_def)
  have fl: "filter (\<lambda>t'. handle t' \<noteq> h0 + j) (timers s) = ?later @ ?done"
    unfolding ts using f by simp
  show ?thesis
    using c
    by (simp add: runNext_def n Let_def max_def fl tk reloadFrame_def)
qed

lemma reload_round:
  assumes q: "timers s = reloadTimers h0 t d 0 es"
    and c: "clock s \<le> t"
    and j: "j \<le> length es"
  shows "timers ((runNext ^^ j) s) =
           reloadTimers h0 t d j (drop j es) @ reloadTimers h0 (t + d) d 0 (take j es)
         \<and> clock ((runNext ^^ j) s) \<le> t
         \<and> elements ((runNext ^^ j) s) =
             (\<lambda>e. (elements s e)\<lparr>reloads := reloads (elements s e)
                                     + length (filter (\<lambda>x. x = e) (take j es))\<rparr>)"
  using j
proof (induction j)
  case 0
  show ?case using q c by (simp add: reloadTimers_def)
next
  case (Suc k)
  let ?s = "(runNext ^^ k) s"
  from Suc have k: "k < length es"
    and qk: "timers ?s = reloadTimers h0 t d k (drop k es) @ reloadTimers h0 (t + d) d 0 (take k es)"
    and ck: "clock ?s \<le> t"
    and ek: "elements ?s =
             (\<lambda>e. (elements s e)\<lparr>reloads := reloads (elements s e)
                                     + length (filter (\<lambda>x. x = e) (take k es))\<rparr>)"
    by simp_all
  have r: "(runNext ^^ Suc k) s = runNext ?s" by simp
  show ?case
    unfolding r reload_turn [OF qk k ck]
    using k by (simp add: ek fun_eq_iff take_Suc_conv_app_nth)
qed

lemma reloadTimers_tabs:
  "map (\<lambda>(i, t). \<lparr>handle = h0 + i, due = D, period = Some d,
                   callback = ReloadFrame (tab_element t)\<rparr>) (enumerate k ts) =
     reloadTimers h0 D d k (map tab_element ts)"
  by (induction ts arbitrary: k) (simp_all add: reloadTimers_def)

lemma reloadTimers_later:
  "map (\<lambda>tm. tm\<lparr>due := due tm + d\<rparr>) (reloadTimers h0 D d k es) = reloadTimers h0 (D + d) d k es"
  by (simp add: reloadTimers_def split_def)

lemma openTabsWithRefresh_frame:
  "clock (openTabsWithRefresh st url d n) = clock st"
  "elements (openTabsWithRefresh st url d n) = elements (openTabs st url n ''refresh'')"
  by (simp_all add: openTabsWithRefresh_def Let_def fold_setInterval openTabs_frame)

lemma refresh_round:
  assumes "timers st = []"
  shows "(\<forall>e. reloads (elements ((runNext ^^ length (activeTabs (openTabsWithRefresh st url d n)))
                                 (openTabsWithRefresh st url d n)) e) =
               reloads (elements (openTabsWithRefresh st url d n) e)
                 + length (filter (\<lambda>t. tab_element t = e)
                             (activeTabs (openTabsWithRefresh st url d n))))
         \<and> timers ((runNext ^^ length (activeTabs (openTabsWithRefresh st url d n)))
                     (openTabsWithRefresh st url d n)) =
             map (\<lambda>tm. tm\<lparr>due := due tm + d\<rparr>) (timers (openTabsWithRefresh st url d n))"
proof -
  let ?S = "openTabsWithRefresh st url d n"
  let ?es = "map tab_element (activeTabs ?S)"
  have q: "timers ?S = reloadTimers (nextHandle st) (clock st + d) d 0 ?es"
    using assms
    by (simp add: openTabsWithRefresh_timers openTabsWithRefresh_tabs reloadTimers_tabs)
  have c: "clock ?S \<le> clock st + d"
    by (simp add: openTabsWithRefresh_frame)
  have l: "length (activeTabs ?S) \<le> length ?es" by simp
  note r = reload_round [OF q c l]
  have f: "length (filter (\<lambda>x. x = e) ?es) = length (filter (\<lambda>t. tab_element t = e) (activeTabs ?S))"
    for e
    by (simp add: filter_map o_def)
  from r have el: "elements ((runNext ^^ length (activeTabs ?S)) ?S) =
       (\<lambda>e. (elements ?S e)\<lparr>reloads := reloads (elements ?S e)
                                 + length (filter (\<lambda>x. x = e) ?es)\<rparr>)"
    by simp
  from r have tm: "timers ((runNext ^^ length (activeTabs ?S)) ?S) =
       reloadTimers (nextHandle st) (clock st + d + d) d 0 ?es"
    by (simp add: reloadTimers_def)
  show ?thesis
    unfolding el tm q reloadTimers_later by (simp add: filter_map o_def)
qed

text \<open>
  Claim C9. A refresh command whose parameters have the form
  \<^verbatim>\<open><url>.<intervalSec>.<tabCount>\<close> appends \<open>tabCount\<close> tabs to the tab table, keeps the
  timers that were pending, and adds exactly one reload interval for every tab that is
  in the tab table afterwards, the tabs opened by earlier commands first: each of these
  timers reloads the iframe of its tab, has the period \<open>intervalSec * 1000\<close> ms and is due
  for the first time one period after the command. When such a timer fires, the
  iframe of its tab is loaded once more and nothing else changes. On a page where no
  other timer is pending the first round follows: after as many turns of the event
  loop as there are tabs in the table, the iframe of every tab, also of a tab that an
  earlier command opened, has been reloaded once for each tab that shows it, and every
  reload interval is pending again, due one period later.
\<close>

theorem refresh_reloads_every_open_tab:
  assumes "matchUrlNumberNumber params = Some (url, intervalSec, tabCount)"
  shows "activeTabs (snd (executeRefresh st params)) =
           activeTabs st @
             tabsFrom (nextNode st) (trim url) ''refresh'' (startId st) (parseDigits tabCount)
         \<and> take (length (timers st)) (timers (snd (executeRefresh st params))) = timers st
         \<and> map callback (drop (length (timers st)) (timers (snd (executeRefresh st params)))) =
             map (\<lambda>t. ReloadFrame (tab_element t)) (activeTabs (snd (executeRefresh st params)))
         \<and> (\<forall>tm \<in> set (drop (length (timers st)) (timers (snd (executeRefresh st params)))).
               period tm = Some (parseDigits intervalSec * 1000)
               \<and> due tm = clock st + parseDigits intervalSec * 1000)
         \<and> fire s (ReloadFrame e) =
             s\<lparr>elements := (elements s)(e :=
                  (elements s e)\<lparr>reloads := reloads (elements s e) + 1\<rparr>)\<rparr>
         \<and> reloads (elements (fire s (ReloadFrame e)) e) = reloads (elements s e) + 1
         \<and> (timers st = [] \<longrightarrow>
              (\<forall>e. reloads (elements
                       ((runNext ^^ length (activeTabs (snd (executeRefresh st params))))
                          (snd (executeRefresh st params))) e) =
                    reloads (elements (snd (executeRefresh st params)) e)
                      + length (filter (\<lambda>t. tab_element t = e)
                                  (activeTabs (snd (executeRefresh st params)))))
              \<and> timers ((runNext ^^ length (activeTabs (snd (executeRefresh st params))))
                          (snd (executeRefresh st params))) =
                  map (\<lambda>tm. tm\<lparr>due := due tm + parseDigits intervalSec * 1000\<rparr>)
                    (timers (snd (executeRefresh st params))))"
proof -
  let ?d = "parseDigits intervalSec * 1000"
  let ?n = "parseDigits tabCount"
  have r: "snd (executeRefresh st params) = openTabsWithRefresh st (trim url) ?d ?n"
    using assms by (simp add: executeRefresh_def Let_def)
  have c: "map (callback \<circ> (\<lambda>(i, t). \<lparr>handle = nextHandle st + i, due = clock st + ?d,
                 period = Some ?d, callback = ReloadFrame (tab_element t)\<rparr>)) (enumerate k ts)
           = map (\<lambda>t. ReloadFrame (tab_element t)) ts" for ts :: "tab list" and k
    by (induction ts arbitrary: k) simp_all
  have old: "activeTabs (snd (executeRefresh st params)) =
           activeTabs st @
             tabsFrom (nextNode st) (trim url) ''refresh'' (startId st) (parseDigits tabCount)
         \<and> take (length (timers st)) (timers (snd (executeRefresh st params))) = timers st
         \<and> map callback (drop (length (timers st)) (timers (snd (executeRefresh st params)))) =
             map (\<lambda>t. ReloadFrame (tab_element t)) (activeTabs (snd (executeRefresh st params)))
         \<and> (\<forall>tm \<in> set (drop (length (timers st)) (timers (snd (executeRefresh st params)))).
               period tm = Some (parseDigits intervalSec * 1000)
               \<and> due tm = clock st + parseDigits intervalSec * 1000)"
    unfolding r openTabsWithRefresh_timers openTabsWithRefresh_tabs
    by (auto simp: activeTabs_openTabs c)
  have f: "fire s (ReloadFrame e) =
             s\<lparr>elements := (elements s)(e :=
                  (elements s e)\<lparr>reloads := reloads (elements s e) + 1\<rparr>)\<rparr>"
    by (simp add: reloadFrame_def)
  have g: "reloads (elements (fire s (ReloadFrame e)) e) = reloads (elements s e) + 1"
    by (simp add: reloadFrame_def)
  have h: "timers st = [] \<longrightarrow>
              (\<forall>e. reloads (elements
                       ((runNext ^^ length (activeTabs (snd (executeRefresh st params))))
                          (snd (executeRefresh st params))) e) =
                    reloads (elements (snd (executeRefresh st params)) e)
                      + length (filter (\<lambda>t. tab_element t = e)
                                  (activeTabs (snd (executeRefresh st params)))))
              \<and> timers ((runNext ^^ length (activeTabs (snd (executeRefresh st params))))
                          (snd (executeRefresh st params))) =
                  map (\<lambda>tm. tm\<lparr>due := due tm + parseDigits intervalSec * 1000\<rparr>)
                    (timers (snd (executeRefresh st params)))"
    unfolding r using refresh_round by blast
  from old f g h show ?thesis by (intro conjI) blast+
qed


lemma refresh_example:
  "matchUrlNumberNumber ''https://example.com/live.30.1'' = Some (''https://example.com/live'', ''30'', ''1'')"
  "activeTabs (openTabs (initialState ''localhost'' True) ''https://vimeo.com/1'' 2 ''watch'') =
     [\<lparr>tab_id = 0, tab_url = ''https://vimeo.com/1'', tab_type = ''watch'', tab_element = 0\<rparr>,
      \<lparr>tab_id = 1, tab_url = ''https://vimeo.com/1'', tab_type = ''watch'', tab_element = 1\<rparr>]"
  "timers (openTabs (initialState ''localhost'' True) ''https://vimeo.com/1'' 2 ''watch'') = []"
  "nextNode (openTabs (initialState ''localhost'' True) ''https://vimeo.com/1'' 2 ''watch'') = 2"
  "startId (openTabs (initialState ''localhost'' True) ''https://vimeo.com/1'' 2 ''watch'') = 2"
  "parseDigits ''1'' = 1"
  by code_simp+

theorem refresh_reloads_every_open_tab_witness:
  "matchUrlNumberNumber ''https://example.com/live.30.1'' =
     Some (''https://example.com/live'', ''30'', ''1'')
   \<and> map tab_id (activeTabs (snd (executeRefresh
         (openTabs (initialState ''localhost'' True) ''https://vimeo.com/1'' 2 ''watch'')
         ''https://example.com/live.30.1''))) = [0, 1, 2]
   \<and> map callback (timers (snd (executeRefresh
         (openTabs (initialState ''localhost'' True) ''https://vimeo.com/1'' 2 ''watch'')
         ''https://example.com/live.30.1''))) = [ReloadFrame 0, ReloadFrame 1, ReloadFrame 2]
   \<and> reloads (elements (fire (snd (executeRefresh
         (openTabs (initialState ''localhost'' True) ''https://vimeo.com/1'' 2 ''watch'')
         ''https://example.com/live.30.1'')) (ReloadFrame 0)) 0) =
       reloads (elements (snd (executeRefresh
         (openTabs (initialState ''localhost'' True) ''https://vimeo.com/1'' 2 ''watch'')
         ''https://example.com/live.30.1'')) 0) + 1
   \<and> timers (openTabs (initialState ''localhost'' True) ''https://vimeo.com/1'' 2 ''watch'') = []
   \<and> map (\<lambda>e. reloads (elements ((runNext ^^ 3) (snd (executeRefresh
         (openTabs (initialState ''localhost'' True) ''https://vimeo.com/1'' 2 ''watch'')
         ''https://example.com/live.30.1''))) e)) [0, 1, 2] =
       map (\<lambda>e. reloads (elements (snd (executeRefresh
         (openTabs (initialState ''localhost'' True) ''https://vimeo.com/1'' 2 ''watch'')
         ''https://example.com/live.30.1'')) e) + 1) [0, 1, 2]
   \<and> map due (timers ((runNext ^^ 3) (snd (executeRefresh
         (openTabs (initialState ''localhost'' True) ''https://vimeo.com/1'' 2 ''watch'')
         ''https://example.com/live.30.1'')))) =
       map (\<lambda>tm. due tm + parseDigits ''30'' * 1000) (timers (snd (executeRefresh
         (openTabs (initialState ''localhost'' True) ''https://vimeo.com/1'' 2 ''watch'')
         ''https://example.com/live.30.1'')))"
proof -
  let ?st = "openTabs (initialState ''localhost'' True) ''https://vimeo.com/1'' 2 ''watch''"
  let ?S = "snd (executeRefresh ?st ''https://example.com/live.30.1'')"
  note a = refresh_reloads_every_open_tab [OF refresh_example(1), of ?st ?S 0]
  note a1 = a [THEN conjunct1]
  note a2 = a [THEN conjunct2, THEN conjunct1]
  note a3 = a [THEN conjunct2, THEN conjunct2, THEN conjunct1]
  note a6 = a [THEN conjunct2, THEN conjunct2, THEN conjunct2, THEN conjunct2, THEN conjunct2,
      THEN conjunct1]
  note a7 = a [THEN conjunct2, THEN conjunct2, THEN conjunct2, THEN conjunct2, THEN conjunct2,
      THEN conjunct2]
  from a1 have tabs: "activeTabs ?S =
     [\<lparr>tab_id = 0, tab_url = ''https://vimeo.com/1'', tab_type = ''watch'', tab_element = 0\<rparr>,
      \<lparr>tab_id = 1, tab_url = ''https://vimeo.com/1'', tab_type = ''watch'', tab_element = 1\<rparr>,
      \<lparr>tab_id = 2, tab_url = trim ''https://example.com/live'', tab_type = ''refresh'',
        tab_element = 2\<rparr>]"
    by (simp add: refresh_example tabsFrom_def)
  then have 1: "map tab_id (activeTabs ?S) = [0, 1, 2]" by simp
  from a2 a3 have 2: "map callback (timers ?S) = [ReloadFrame 0, ReloadFrame 1, ReloadFrame 2]"
    unfolding tabs by (simp add: refresh_example)
  from a7 refresh_example(3)
  have all: "\<forall>e. reloads (elements ((runNext ^^ length (activeTabs ?S)) ?S) e) =
                reloads (elements ?S e) + length (filter (\<lambda>t. tab_element t = e) (activeTabs ?S))"
    and tm: "timers ((runNext ^^ length (activeTabs ?S)) ?S) =
               map (\<lambda>tm. tm\<lparr>due := due tm + parseDigits ''30'' * 1000\<rparr>) (timers ?S)"
    by blast+
  have l: "length (activeTabs ?S) = 3" unfolding tabs by simp
  from all have e: "reloads (elements ((runNext ^^ 3) ?S) e) =
                reloads (elements ?S e) + length (filter (\<lambda>t. tab_element t = e) (activeTabs ?S))"
    for e
    unfolding l by (rule spec)
  have 4: "map (\<lambda>e. reloads (elements ((runNext ^^ 3) ?S) e)) [0, 1, 2] =
           map (\<lambda>e. reloads (elements ?S e) + 1) [0, 1, 2]"
    unfolding e tabs by simp
  from tm have 5: "map due (timers ((runNext ^^ 3) ?S)) =
                     map (\<lambda>tm. due tm + parseDigits ''30'' * 1000) (timers ?S)"
    unfolding l by (simp add: o_def)
  from 1 2 a6 4 5 refresh_example(1,3) show ?thesis
    by (intro conjI)
qed

subsection \<open>Mute and unmute\<close>

lemma fold_muteOne:
  "fold (muteOne b) ids st =
     st\<lparr>elements := (\<lambda>e. if \<exists>i \<in> set ids. \<exists>t. findTab st i = Some t \<and> tab_element t = e
                          then (elements st e)\<lparr>muted := Some b\<rparr> else elements st e)\<rparr>"
proof (induction ids rule: rev_induct)
  case Nil
  show ?case by simp
next
  case (snoc i ids)
  let ?s = "fold (muteOne b) ids st"
  have f: "findTab ?s i = findTab st i"
    unfolding snoc.IH by (cases i) (simp_all add: findTab_def)
  have "fold (muteOne b) (ids @ [i]) st = muteOne b i ?s"
    by simp
  also have "\<dots> = (case findTab st i of None \<Rightarrow> ?s | Some t \<Rightarrow> setMuted b t ?s)"
    by (subst muteOne_def) (simp only: f)
  also have "\<dots> =
     st\<lparr>elements := (\<lambda>e. if \<exists>i \<in> set (ids @ [i]). \<exists>t. findTab st i = Some t \<and> tab_element t = e
                          then (elements st e)\<lparr>muted := Some b\<rparr> else elements st e)\<rparr>"
  proof (cases "findTab st i")
    case None
    then show ?thesis unfolding snoc.IH by simp
  next
    case (Some a)
    let ?P = "\<lambda>e. \<exists>i \<in> set ids. \<exists>t. findTab st i = Some t \<and> tab_element t = e"
    let ?f = "\<lambda>e. if ?P e then (elements st e)\<lparr>muted := Some b\<rparr> else elements st e"
    have "?f(tab_element a := (?f (tab_element a))\<lparr>muted := Some b\<rparr>) =
            (\<lambda>e. if \<exists>i \<in> set (ids @ [i]). \<exists>t. findTab st i = Some t \<and> tab_element t = e
                 then (elements st e)\<lparr>muted := Some b\<rparr> else elements st e)"
      by (auto simp: fun_eq_iff Some)
    then show ?thesis unfolding snoc.IH by (simp add: Some setMuted_def)
  qed
  finally show ?case .
qed

lemma tabIdsOf_matches:
  "(\<exists>i \<in> set (tabIdsOf params). \<exists>t. findTab st i = Some t \<and> tab_element t = e) = mutedBy st params e"
proof
  assume "\<exists>i \<in> set (tabIdsOf params). \<exists>t. findTab st i = Some t \<and> tab_element t = e"
  then obtain entry t where en: "entry \<in> set (splitOn '','' params)"
    and f: "findTab st (map_option (\<lambda>v. v - 1) (parseInt (trim entry))) = Some t"
    and te: "tab_element t = e"
    by (auto simp: tabIdsOf_def)
  from f obtain v where "parseInt (trim entry) = Some v"
    and "find (\<lambda>t. int (tab_id t) = v - 1) (activeTabs st) = Some t"
    by (cases "parseInt (trim entry)") (auto simp: findTab_def)
  with en te show "mutedBy st params e"
    unfolding mutedBy_def by blast
next
  assume "mutedBy st params e"
  then obtain entry v t where en: "entry \<in> set (splitOn '','' params)"
    and p: "parseInt (trim entry) = Some v"
    and f: "find (\<lambda>t. int (tab_id t) = v - 1) (activeTabs st) = Some t"
    and te: "tab_element t = e"
    unfolding mutedBy_def by blast
  from p f have "findTab st (map_option (\<lambda>v. v - 1) (parseInt (trim entry))) = Some t"
    by (simp add: findTab_def)
  moreover from en have "map_option (\<lambda>v. v - 1) (parseInt (trim entry)) \<in> set (tabIdsOf params)"
    by (simp add: tabIdsOf_def)
  ultimately show "\<exists>i \<in> set (tabIdsOf params). \<exists>t. findTab st i = Some t \<and> tab_element t = e"
    using te by blast
qed

text \<open>
  Claim C10, as amended. For every parameter string that is not \<^verbatim>\<open>all\<close> in any letter
  case, mute and unmute return normally; the message reports the number of
  comma-separated entries; the only change to the state is that \<^verbatim>\<open>muted\<close> is set on the
  iframes reached by an entry that parses to a number \<open>v\<close> and matches the open tab with
  the id \<open>v - 1\<close>. Entries that do not parse or match no open tab change nothing, and
  the tab table itself is unchanged.
\<close>

theorem mute_skips_unmatched_entries:
  assumes "toLowerCase params \<noteq> ''all''"
  shows "executeMute st params =
           (Inr (''Muted '' @ showNat (length (splitOn '','' params)) @ '' tab(s)''),
            st\<lparr>elements := (\<lambda>e. if mutedBy st params e
                                 then (elements st e)\<lparr>muted := Some True\<rparr> else elements st e)\<rparr>)
         \<and> executeUnmute st params =
           (Inr (''Unmuted '' @ showNat (length (splitOn '','' params)) @ '' tab(s)''),
            st\<lparr>elements := (\<lambda>e. if mutedBy st params e
                                 then (elements st e)\<lparr>muted := Some False\<rparr> else elements st e)\<rparr>)"
  using assms
  by (simp add: executeMute_def executeUnmute_def Let_def fold_muteOne tabIdsOf_matches)
     (simp add: tabIdsOf_def)


lemma mute_example:
  "toLowerCase ''1, x,7'' \<noteq> ''all''"
  "showNat (length (splitOn '','' ''1, x,7'')) = ''3''"
  by code_simp+

theorem mute_skips_unmatched_entries_witness:
  "toLowerCase ''1, x,7'' \<noteq> ''all''
   \<and> fst (executeMute (openTabs (initialState ''localhost'' True) ''https://vimeo.com/1'' 2 ''watch'')
          ''1, x,7'') = Inr ''Muted 3 tab(s)''
   \<and> fst (executeUnmute (openTabs (initialState ''localhost'' True) ''https://vimeo.com/1'' 2 ''watch'')
          ''1, x,7'') = Inr ''Unmuted 3 tab(s)''
   \<and> activeTabs (snd (executeMute
          (openTabs (initialState ''localhost'' True) ''https://vimeo.com/1'' 2 ''watch'') ''1, x,7''))
       = activeTabs (openTabs (initialState ''localhost'' True) ''https://vimeo.com/1'' 2 ''watch'')"
  using mute_skips_unmatched_entries [OF mute_example(1),
      of "openTabs (initialState ''localhost'' True) ''https://vimeo.com/1'' 2 ''watch''"]
  by (simp add: mute_example)

text \<open>
  Claim C10 as stated fails for the parameter string \<^verbatim>\<open>ALL\<close>, which is not the string
  \<^verbatim>\<open>all\<close> and has one entry: every tab is muted and the message counts the tabs.
\<close>

theorem mute_skips_unmatched_entries_counterexample:
  "''ALL'' \<noteq> ''all''
   \<and> length (splitOn '','' ''ALL'') = 1
   \<and> fst (executeMute (openTabs (initialState ''localhost'' True) ''https://vimeo.com/1'' 2 ''watch'')
          ''ALL'') = Inr ''Muted all 2 tab(s)''
   \<and> map (\<lambda>t. muted (elements (snd (executeMute
            (openTabs (initialState ''localhost'' True) ''https://vimeo.com/1'' 2 ''watch'') ''ALL''))
          (tab_element t)))
        (activeTabs (openTabs (initialState ''localhost'' True) ''https://vimeo.com/1'' 2 ''watch''))
      = [Some True, Some True]"
  by code_simp

subsection \<open>Embed URLs\<close>

lemma startsWith_Nil [simp]: "startsWith s [] = True"
  by (simp add: startsWith_def)

lemma startsWith_Nil_Cons [simp]: "startsWith [] (d # p) = False"
  by (simp add: startsWith_def)

lemma startsWith_Cons [simp]: "startsWith (c # s) (d # p) = (c = d \<and> startsWith s p)"
  by (auto simp: startsWith_def)

lemma startsWith_iff: "startsWith s p = (\<exists>b. s = p @ b)"
proof
  assume "startsWith s p"
  then have "s = p @ drop (length p) s"
    by (metis append_take_drop_id startsWith_def)
  then show "\<exists>b. s = p @ b" ..
next
  assume "\<exists>b. s = p @ b"
  then show "startsWith s p" by (auto simp: startsWith_def)
qed

lemma includesStr_iff: "includesStr s p = (\<exists>a b. s = a @ p @ b)"
proof (induction s)
  case Nil
  show ?case by (auto simp: includesStr.simps)
next
  case (Cons c s)
  show ?case
  proof
    assume "includesStr (c # s) p"
    then consider "startsWith (c # s) p" | "includesStr s p"
      by (auto simp: includesStr.simps)
    then show "\<exists>a b. c # s = a @ p @ b"
    proof cases
      case 1
      then obtain b where "c # s = p @ b" by (auto simp: startsWith_iff)
      then have "c # s = [] @ p @ b" by simp
      then show ?thesis by blast
    next
      case 2
      with Cons.IH obtain a b where "s = a @ p @ b" by auto
      then have "c # s = (c # a) @ p @ b" by simp
      then show ?thesis by blast
    qed
  next
    assume "\<exists>a b. c # s = a @ p @ b"
    then obtain a b where ab: "c # s = a @ p @ b" by auto
    show "includesStr (c # s) p"
    proof (cases a)
      case Nil
      with ab have "startsWith (c # s) p" by (auto simp: startsWith_iff)
      then show ?thesis by (simp add: includesStr.simps)
    next
      case (Cons x a')
      with ab have "s = a' @ p @ b" by simp
      with Cons.IH have "includesStr s p" by auto
      then show ?thesis by (simp add: includesStr.simps)
    qed
  qed
qed

lemma includesStr_append_left: "includesStr a p \<Longrightarrow> includesStr (a @ b) p"
  by (auto simp: includesStr_iff) (metis append.assoc)

lemma includesStr_subset: "includesStr s p \<Longrightarrow> set p \<subseteq> set s"
  by (auto simp: includesStr_iff)

lemma segments:
  "includesStr ''https://www.youtube.com/embed/'' ''youtube.com/embed/''"
  "includesStr ''https://player.twitch.tv/?video='' ''player.twitch.tv/''"
  "includesStr ''https://player.twitch.tv/?channel='' ''player.twitch.tv/''"
  "includesStr ''https://player.vimeo.com/video/'' ''player.vimeo.com/video/''"
  "includesStr ''https://www.dailymotion.com/embed/video/'' ''dailymotion.com/embed/video/''"
  by code_simp+

lemma convertYouTubeUrl_segment:
  "convertYouTubeUrl url a = Inr e \<Longrightarrow> includesStr e ''youtube.com/embed/''"
  using includesStr_append_left [OF segments(1)]
  by (auto simp: convertYouTubeUrl_def split: sum.splits if_splits)

lemma convertTwitchUrl_segment:
  "convertTwitchUrl host url a = Inr e \<Longrightarrow> includesStr e ''player.twitch.tv/''"
  using includesStr_append_left [OF segments(2)] includesStr_append_left [OF segments(3)]
  by (auto simp: convertTwitchUrl_def Let_def split: option.splits if_splits)

lemma convertVimeoUrl_segment:
  "convertVimeoUrl url a = Inr e \<Longrightarrow> includesStr e ''player.vimeo.com/video/''"
  using includesStr_append_left [OF segments(4)]
  by (auto simp: convertVimeoUrl_def split: sum.splits if_splits)

lemma convertDailyMotionUrl_segment:
  "convertDailyMotionUrl url a = Inr e \<Longrightarrow> includesStr e ''dailymotion.com/embed/video/''"
  using includesStr_append_left [OF segments(5)]
  by (auto simp: convertDailyMotionUrl_def split: sum.splits if_splits)

lemma convertToEmbedUrl_segment:
  assumes "fst (convertToEmbedUrl st url a) = Inr e" "platformOf url \<noteq> Other"
  shows "includesStr e (embedSegment (platformOf url))"
  using assms
  by (auto simp: convertToEmbedUrl_def platformOf_def
      dest: convertYouTubeUrl_segment convertTwitchUrl_segment convertVimeoUrl_segment
        convertDailyMotionUrl_segment split: if_splits)


lemma splitFirst_None_iff: "sep \<noteq> [] \<Longrightarrow> (splitFirst sep s = None) = (\<not> includesStr s sep)"
  by (induction s) (auto simp: splitFirst.simps includesStr.simps split: option.splits)

lemma splitOn_no_sep:
  assumes "\<not> includesStr s sep"
  shows "splitOn sep s = [s]"
proof (cases "sep = []")
  case True
  then show ?thesis by (simp add: splitOn.simps)
next
  case False
  with assms have "splitFirst sep s = None" by (simp add: splitFirst_None_iff)
  then show ?thesis by (simp add: splitOn.simps)
qed

lemma splitFirst_char:
  "c \<notin> set a \<Longrightarrow> splitFirst [c] (a @ c # b) = Some (a, b)"
  by (induction a) (auto simp: splitFirst.simps)

lemma piece0_char: "c \<notin> set a \<Longrightarrow> piece0 [c] (a @ c # b) = a"
  by (simp add: piece0_def splitOn.simps [of "[c]" "a @ c # b"] splitFirst_char)

lemma not_includes_char: "c \<in> set p \<Longrightarrow> c \<notin> set s \<Longrightarrow> \<not> includesStr s p"
  using includesStr_subset by blast

lemma youTubeVideoId_embed_rest:
  assumes "CHR ''/'' \<notin> set vid" "CHR ''?'' \<notin> set vid" "CHR ''/'' \<notin> set t"
  shows "youTubeVideoId (''https://www.youtube.com/embed/'' @ vid @ CHR ''?'' # t) = Inr vid"
proof -
  let ?rest = "vid @ CHR ''?'' # t"
  let ?e = "''https://www.youtube.com/embed/'' @ ?rest"
  have sl: "CHR ''/'' \<notin> set ?rest" using assms by simp
  have n1: "\<not> includesStr ?rest ''youtube.com/watch?v=''"
    and n2: "\<not> includesStr ?rest ''youtu.be/''"
    and n3: "\<not> includesStr ?rest ''youtube.com/live/''"
    and n4: "\<not> includesStr ?rest ''embed/''"
    by (rule not_includes_char [OF _ sl], simp)+
  have i1: "\<not> includesStr ?e ''youtube.com/watch?v=''"
    using n1 by (simp add: includesStr.simps)
  have i2: "\<not> includesStr ?e ''youtu.be/''"
    using n2 by (simp add: includesStr.simps)
  have i3: "\<not> includesStr ?e ''youtube.com/live/''"
    using n3 by (simp add: includesStr.simps)
  have i4: "includesStr ?e ''youtube.com/embed/''"
    by (rule includesStr_append_left [OF segments(1)])
  have "splitFirst ''embed/'' ?e = Some (''https://www.youtube.com/'', ?rest)"
    by (simp add: splitFirst.simps)
  then have "splitOn ''embed/'' ?e = [''https://www.youtube.com/'', ?rest]"
    by (subst splitOn.simps) (simp add: splitOn_no_sep [OF n4])
  then have p1: "piece1 ''embed/'' ?e = Some ?rest"
    by (simp add: piece1_def at_def)
  have p0: "piece0 ''?'' ?rest = vid"
    by (rule piece0_char [OF assms(2)])
  show ?thesis
    by (simp only: youTubeVideoId_def i1 i2 i3 i4 p1 p0 if_True if_False option.case)
qed

lemma youTubeVideoId_embed:
  assumes "CHR ''/'' \<notin> set vid" "CHR ''?'' \<notin> set vid"
  shows "youTubeVideoId (youTubeEmbed vid a) = Inr vid"
proof (cases a)
  case True
  have "CHR ''/'' \<notin> set ''rel=0&modestbranding=1&controls=1&showinfo=0&autoplay=1&mute=1''"
    by simp
  from youTubeVideoId_embed_rest [OF assms this] True show ?thesis
    by (simp add: youTubeEmbed_def)
next
  case False
  have "CHR ''/'' \<notin> set ''rel=0&modestbranding=1&controls=1&showinfo=0''"
    by simp
  from youTubeVideoId_embed_rest [OF assms this] False show ?thesis
    by (simp add: youTubeEmbed_def)
qed


lemma platformOf_youTubeEmbed: "platformOf (youTubeEmbed vid a) = YouTube"
proof -
  have "includesStr ''https://www.youtube.com/embed/'' ''youtube.com''" by code_simp
  then have "includesStr (youTubeEmbed vid a) ''youtube.com''"
    unfolding youTubeEmbed_def by (rule includesStr_append_left)
  then show ?thesis by (simp add: platformOf_def)
qed

lemma convertToEmbedUrl_YouTube:
  "platformOf url = YouTube \<Longrightarrow> fst (convertToEmbedUrl st url a) = convertYouTubeUrl url a"
  by (auto simp: platformOf_def convertToEmbedUrl_def split: if_splits)

lemma convertYouTubeUrl_id:
  "youTubeVideoId url = Inr vid \<Longrightarrow> vid \<noteq> [] \<Longrightarrow> convertYouTubeUrl url a = Inr (youTubeEmbed vid a)"
  by (simp add: convertYouTubeUrl_def youTubeEmbed_def)

text \<open>
  Claim C7, as amended. Whenever \<^verbatim>\<open>convertToEmbedUrl\<close> returns a URL for a URL that it
  recognizes as YouTube, Twitch, Vimeo or DailyMotion, the result contains the embed
  path segment of that platform. For a YouTube URL whose video id contains neither
  \<^verbatim>\<open>/\<close> nor \<^verbatim>\<open>?\<close>, the result is the embed URL of that id, it is recognized as YouTube
  again, the same id is extracted from it, and converting it a second time succeeds
  with the embed URL of the same id.
\<close>

theorem embed_segment_and_youtube_renormalization:
  "(fst (convertToEmbedUrl st url autoplay) = Inr e \<and> platformOf url \<noteq> Other \<longrightarrow>
      includesStr e (embedSegment (platformOf url)))
   \<and> (platformOf url = YouTube \<and> youTubeVideoId url = Inr vid \<and> vid \<noteq> []
       \<and> CHR ''/'' \<notin> set vid \<and> CHR ''?'' \<notin> set vid \<longrightarrow>
         fst (convertToEmbedUrl st url autoplay) = Inr (youTubeEmbed vid autoplay)
         \<and> platformOf (youTubeEmbed vid autoplay) = YouTube
         \<and> youTubeVideoId (youTubeEmbed vid autoplay) = Inr vid
         \<and> fst (convertToEmbedUrl st' (youTubeEmbed vid autoplay) again) =
             Inr (youTubeEmbed vid again))"
proof (intro conjI impI)
  assume "fst (convertToEmbedUrl st url autoplay) = Inr e \<and> platformOf url \<noteq> Other"
  then show "includesStr e (embedSegment (platformOf url))"
    using convertToEmbedUrl_segment by blast
next
  assume a: "platformOf url = YouTube \<and> youTubeVideoId url = Inr vid \<and> vid \<noteq> []
       \<and> CHR ''/'' \<notin> set vid \<and> CHR ''?'' \<notin> set vid"
  then have y: "platformOf url = YouTube" and v: "youTubeVideoId url = Inr vid" and ne: "vid \<noteq> []"
    and s1: "CHR ''/'' \<notin> set vid" and s2: "CHR ''?'' \<notin> set vid"
    by simp_all
  show "fst (convertToEmbedUrl st url autoplay) = Inr (youTubeEmbed vid autoplay)"
    by (simp add: convertToEmbedUrl_YouTube [OF y] convertYouTubeUrl_id [OF v ne])
  show "platformOf (youTubeEmbed vid autoplay) = YouTube"
    by (rule platformOf_youTubeEmbed)
  show "youTubeVideoId (youTubeEmbed vid autoplay) = Inr vid"
    by (rule youTubeVideoId_embed [OF s1 s2])
  show "fst (convertToEmbedUrl st' (youTubeEmbed vid autoplay) again) = Inr (youTubeEmbed vid again)"
    by (simp add: convertToEmbedUrl_YouTube [OF platformOf_youTubeEmbed]
        convertYouTubeUrl_id [OF youTubeVideoId_embed [OF s1 s2] ne])
qed

lemma embed_example:
  "fst (convertToEmbedUrl (initialState ''localhost'' True) ''https://www.twitch.tv/foo'' False) =
     Inr ''https://player.twitch.tv/?channel=foo&parent=localhost''"
  "platformOf ''https://www.twitch.tv/foo'' = Twitch"
  "platformOf ''https://youtube.com/watch?v=abc123'' = YouTube"
  "youTubeVideoId ''https://youtube.com/watch?v=abc123'' = Inr ''abc123''"
  "youTubeEmbed ''abc123'' False =
     ''https://www.youtube.com/embed/abc123?rel=0&modestbranding=1&controls=1&showinfo=0''"
  "youTubeEmbed ''abc123'' True =
     ''https://www.youtube.com/embed/abc123?rel=0&modestbranding=1&controls=1&showinfo=0&autoplay=1&mute=1''"
  by code_simp+

theorem embed_segment_and_youtube_renormalization_witness:
  "fst (convertToEmbedUrl (initialState ''localhost'' True) ''https://www.twitch.tv/foo'' False) =
     Inr ''https://player.twitch.tv/?channel=foo&parent=localhost''
   \<and> platformOf ''https://www.twitch.tv/foo'' \<noteq> Other
   \<and> includesStr ''https://player.twitch.tv/?channel=foo&parent=localhost'' ''player.twitch.tv/''
   \<and> platformOf ''https://youtube.com/watch?v=abc123'' = YouTube
   \<and> youTubeVideoId ''https://youtube.com/watch?v=abc123'' = Inr ''abc123''
   \<and> ''abc123'' \<noteq> [] \<and> CHR ''/'' \<notin> set ''abc123'' \<and> CHR ''?'' \<notin> set ''abc123''
   \<and> fst (convertToEmbedUrl (initialState ''localhost'' True)
         ''https://youtube.com/watch?v=abc123'' False) =
         Inr ''https://www.youtube.com/embed/abc123?rel=0&modestbranding=1&controls=1&showinfo=0''
   \<and> youTubeVideoId
         ''https://www.youtube.com/embed/abc123?rel=0&modestbranding=1&controls=1&showinfo=0'' =
         Inr ''abc123''
   \<and> fst (convertToEmbedUrl (initialState ''localhost'' True)
         ''https://www.youtube.com/embed/abc123?rel=0&modestbranding=1&controls=1&showinfo=0'' True) =
         Inr ''https://www.youtube.com/embed/abc123?rel=0&modestbranding=1&controls=1&showinfo=0&autoplay=1&mute=1''"
  using embed_segment_and_youtube_renormalization
          [of "initialState ''localhost'' True" "''https://www.twitch.tv/foo''" False
              "''https://player.twitch.tv/?channel=foo&parent=localhost''" "''abc123''"
              "initialState ''localhost'' True" True]
        embed_segment_and_youtube_renormalization
          [of "initialState ''localhost'' True" "''https://youtube.com/watch?v=abc123''" False
              "''https://www.youtube.com/embed/abc123?rel=0&modestbranding=1&controls=1&showinfo=0''"
              "''abc123''" "initialState ''localhost'' True" True]
  by (simp add: embed_example)

text \<open>
  Claim C7 as stated fails for the other three platforms: the embed URL of a Twitch
  channel and the embed URL of a DailyMotion video are rejected by the second
  conversion, and from the embed URL of a Vimeo video the second conversion extracts
  the identifier \<^verbatim>\<open>video\<close>. A URL of a known platform from which no identifier can be
  extracted is not converted at all.
\<close>

theorem embed_renormalization_counterexample:
  "fst (convertToEmbedUrl (initialState ''localhost'' True) ''https://www.twitch.tv/foo'' False) =
     Inr ''https://player.twitch.tv/?channel=foo&parent=localhost''
   \<and> fst (convertToEmbedUrl (initialState ''localhost'' True)
         ''https://player.twitch.tv/?channel=foo&parent=localhost'' False) =
       Inl (Error ''Could not extract Twitch channel'')
   \<and> fst (convertToEmbedUrl (initialState ''localhost'' True) ''https://vimeo.com/12345'' False) =
     Inr ''https://player.vimeo.com/video/12345?title=0&byline=0&portrait=0''
   \<and> fst (convertToEmbedUrl (initialState ''localhost'' True)
         ''https://player.vimeo.com/video/12345?title=0&byline=0&portrait=0'' False) =
       Inr ''https://player.vimeo.com/video/video?title=0&byline=0&portrait=0''
   \<and> fst (convertToEmbedUrl (initialState ''localhost'' True)
         ''https://www.dailymotion.com/video/x8abc_title'' False) =
     Inr ''https://www.dailymotion.com/embed/video/x8abc?ui-logo=0''
   \<and> fst (convertToEmbedUrl (initialState ''localhost'' True)
         ''https://www.dailymotion.com/embed/video/x8abc?ui-logo=0'' False) =
       Inl (Error ''Could not extract DailyMotion video ID'')
   \<and> isValidStreamingUrl ''https://www.twitch.tv/''
   \<and> fst (convertToEmbedUrl (initialState ''localhost'' True) ''https://www.twitch.tv/'' False) =
       Inl (Error ''Could not extract Twitch channel'')"
  by code_simp

subsection \<open>The command grammar\<close>

lemma toLower_toUpper: "toLowerChar (toUpperAscii c) = toLowerChar c"
proof (cases "isLower c")
  case True
  then have r: "97 \<le> (of_char c :: nat)" "(of_char c :: nat) \<le> 122"
    by (simp_all add: isLower_def charCode_def)
  then have "(of_char (char_of ((of_char c :: nat) - 32)) :: nat) = of_char c - 32"
    by simp
  with r True show ?thesis
    by (auto simp: toUpperAscii_def toLowerChar_def charCode_def Let_def)
next
  case False
  then show ?thesis by (simp add: toUpperAscii_def)
qed

lemma startsWithI_lower:
  assumes "startsWithI s p"
  shows "toLowerCase (take (length p) s) = toLowerCase p"
proof -
  from assms have "map toLowerChar (map toUpperAscii (take (length p) s)) =
      map toLowerChar (map toUpperAscii p)"
    by (simp add: startsWithI_def)
  then show ?thesis
    by (simp add: toLowerCase_def toLower_toUpper o_def)
qed

lemma startsWithI_Cons:
  "startsWithI (c # s) (d # p) = (toUpperAscii c = toUpperAscii d \<and> startsWithI s p)"
  by (simp add: startsWithI_def)

lemma startsWithI_Nil: "startsWithI [] (d # p) = False" "startsWithI s [] = True"
  by (simp_all add: startsWithI_def)

lemma upper_consts:
  "toUpperAscii CHR ''a'' = CHR ''A''" "toUpperAscii CHR ''e'' = CHR ''E''"
  "toUpperAscii CHR ''R'' = CHR ''R''" "toUpperAscii CHR ''L'' = CHR ''L''"
  by code_simp+

lemma agent_exclusive:
  "startsWithI s ''Rena'' \<Longrightarrow> \<not> startsWithI s ''Raitha''"
  "startsWithI s ''Leaf'' \<Longrightarrow> \<not> startsWithI s ''Raitha''"
  "startsWithI s ''Leaf'' \<Longrightarrow> \<not> startsWithI s ''Rena''"
proof -
  show "startsWithI s ''Rena'' \<Longrightarrow> \<not> startsWithI s ''Raitha''"
    by (cases s; cases "tl s") (auto simp: startsWithI_Cons startsWithI_Nil upper_consts)
  show "startsWithI s ''Leaf'' \<Longrightarrow> \<not> startsWithI s ''Raitha''"
    by (cases s) (auto simp: startsWithI_Cons startsWithI_Nil upper_consts)
  show "startsWithI s ''Leaf'' \<Longrightarrow> \<not> startsWithI s ''Rena''"
    by (cases s) (auto simp: startsWithI_Cons startsWithI_Nil upper_consts)
qed

lemma matchII_agent:
  assumes "name \<in> set agentNames" "startsWithI command name"
  shows "matchII command = Some (take (length name) command)"
  using assms agent_exclusive [of command]
  by (auto simp: agentNames_def matchII_def eval_nat_numeral)

lemma matchII_None:
  assumes "list_all (\<lambda>name. \<not> startsWithI command name) agentNames"
  shows "matchII command = None"
  using assms by (simp add: agentNames_def matchII_def)


lemma takeWhile_word_nonempty:
  "(takeWhile isWordChar r \<noteq> []) = (case r of [] \<Rightarrow> False | c # r' \<Rightarrow> isWordChar c)"
  by (cases r) simp_all

lemma matchAction_Cons:
  "matchAction (c # s) =
     (if actionAt (c # s) then Some (takeWhile isWordChar (drop 3 (c # s))) else matchAction s)"
  by (simp only: matchAction.simps actionAt_def takeWhile_word_nonempty)

lemma list_all_upt_Suc:
  "list_all P [0..<Suc k] = (P 0 \<and> list_all (\<lambda>j. P (Suc j)) [0..<k])"
proof -
  have "[0..<Suc k] = 0 # [Suc 0..<Suc k]"
    by (rule upt_conv_Cons) simp
  also have "[Suc 0..<Suc k] = map Suc [0..<k]"
    by (rule map_Suc_upt [symmetric])
  finally have e: "[0..<Suc k] = 0 # map Suc [0..<k]" .
  show ?thesis
    unfolding e by (simp add: list.pred_map o_def)
qed

lemma matchAction_first:
  "firstActionAt command k \<Longrightarrow>
     matchAction command = Some (takeWhile isWordChar (drop (k + 3) command))"
proof (induction command arbitrary: k)
  case Nil
  then show ?case by (simp add: firstActionAt_def actionAt_def startsWithI_Nil)
next
  case (Cons c s)
  show ?case
  proof (cases k)
    case 0
    with Cons.prems show ?thesis
      by (simp add: firstActionAt_def matchAction_Cons)
  next
    case (Suc k')
    with Cons.prems have n: "\<not> actionAt (c # s)" and f: "firstActionAt s k'"
      by (simp_all add: firstActionAt_def list_all_upt_Suc del: upt_Suc)
    from Cons.IH [OF f] n Suc show ?thesis
      by (simp add: matchAction_Cons drop_Cons' ac_simps)
  qed
qed

lemma matchAction_None:
  "list_all (\<lambda>k. \<not> actionAt (drop k command)) [0..<length command] \<Longrightarrow> matchAction command = None"
proof (induction command)
  case Nil
  show ?case by (simp add: matchAction.simps)
next
  case (Cons c s)
  from Cons.prems have "\<not> actionAt (c # s)"
    and "list_all (\<lambda>k. \<not> actionAt (drop k s)) [0..<length s]"
    by (simp_all add: list_all_upt_Suc del: upt_Suc)
  with Cons.IH show ?case
    by (simp add: matchAction_Cons)
qed

lemma trim_Cons_space: "isWhiteSpace c \<Longrightarrow> trim (c # r) = trim r"
  by (simp add: trim_def)

lemma trim_space: "isWhiteSpace c \<Longrightarrow> trim [c] = []"
  by (simp add: trim_def)

lemma matchSpacesDotPlus_line:
  assumes "r \<noteq> []" "\<not> list_ex isLineTerminator r"
  shows "\<exists>g. matchSpacesDotPlus r = Some g \<and> trim g = trim r"
  using assms
proof (induction r)
  case Nil
  then show ?case by simp
next
  case (Cons c r)
  from Cons.prems(2) have nl: "\<not> isLineTerminator c" and nlr: "\<not> list_ex isLineTerminator r"
    by simp_all
  from Cons.prems(2) have tw: "takeWhile (\<lambda>x. \<not> isLineTerminator x) (c # r) = c # r"
    by (simp add: takeWhile_eq_all_conv list_ex_iff)
  show ?case
  proof (cases "isWhiteSpace c")
    case False
    with tw show ?thesis by (simp add: matchSpacesDotPlus.simps)
  next
    case True
    show ?thesis
    proof (cases "r = []")
      case True
      with \<open>isWhiteSpace c\<close> nl show ?thesis
        by (simp add: matchSpacesDotPlus.simps)
    next
      case False
      from Cons.IH [OF False nlr] obtain g where "matchSpacesDotPlus r = Some g" "trim g = trim r"
        by blast
      with True show ?thesis
        by (simp add: matchSpacesDotPlus.simps trim_Cons_space)
    qed
  qed
qed

lemma matchParams_Cons:
  "matchParams (c # s) =
     (if startsWith (c # s) ''--''
      then (case matchSpacesDotPlus (drop 2 (c # s)) of Some g \<Rightarrow> Some g | None \<Rightarrow> matchParams s)
      else matchParams s)"
  by (simp add: matchParams.simps drop_Suc numeral_2_eq_2)

lemma matchParams_first:
  assumes "firstDashesAt command k" "drop (k + 2) command \<noteq> []"
    "\<not> list_ex isLineTerminator command"
  shows "\<exists>g. matchParams command = Some g \<and> trim g = trim (drop (k + 2) command)"
  using assms
proof (induction command arbitrary: k)
  case Nil
  then show ?case by simp
next
  case (Cons c s)
  show ?case
  proof (cases k)
    case 0
    with Cons.prems have d: "startsWith (c # s) ''--''" and ne: "drop 2 (c # s) \<noteq> []"
      by (simp_all add: firstDashesAt_def)
    from Cons.prems(3) have "\<not> list_ex isLineTerminator (drop 2 (c # s))"
      by (auto simp: list_ex_iff dest: in_set_dropD)
    from matchSpacesDotPlus_line [OF ne this] d 0 show ?thesis
      by (auto simp: matchParams_Cons)
  next
    case (Suc k')
    with Cons.prems have n: "\<not> startsWith (c # s) ''--''" and f: "firstDashesAt s k'"
      and ne: "drop (k' + 2) s \<noteq> []" and nl: "\<not> list_ex isLineTerminator s"
      by (simp_all add: firstDashesAt_def list_all_upt_Suc del: upt_Suc)
    from Cons.IH [OF f ne nl] n Suc show ?thesis
      by (auto simp: matchParams_Cons)
  qed
qed

lemma matchParams_None:
  "list_all (\<lambda>k. startsWith (drop k command) ''--'' \<longrightarrow> drop (k + 2) command = [])
     [0..<length command] \<Longrightarrow> matchParams command = None"
proof (induction command)
  case Nil
  show ?case by (simp add: matchParams.simps)
next
  case (Cons c s)
  from Cons.prems have h: "startsWith (c # s) ''--'' \<longrightarrow> drop 2 (c # s) = []"
    and "list_all (\<lambda>k. startsWith (drop k s) ''--'' \<longrightarrow> drop (k + 2) s = []) [0..<length s]"
    by (simp_all add: list_all_upt_Suc del: upt_Suc)
  with Cons.IH have "matchParams s = None" by simp
  with h show ?case
    by (auto simp: matchParams_Cons matchSpacesDotPlus.simps)
qed

text \<open>
  Claim C1, as amended. Let the command contain no line terminator.
  \<^item> When it starts with one of the three agent names in any letter case, \<open>ka\<close> is the
    first position where \<^verbatim>\<open>Ex.\<close> (in any letter case) is followed by a word character,
    \<open>kp\<close> is the first position of \<^verbatim>\<open>--\<close> and the rest after these two dashes is not
    empty, then the triple extracted is the agent name in lower case, the run of word
    characters after the marker in lower case, and the whole rest after the first
    \<^verbatim>\<open>--\<close>, trimmed (whatever further \<^verbatim>\<open>--\<close> it contains); \<^verbatim>\<open>parseAndExecute\<close> hands
    this triple to \<^verbatim>\<open>executeAction\<close>.
  \<^item> When it starts with none of the names, \<^verbatim>\<open>parseAndExecute\<close> fails with the error for
    the agent; when it has an agent but no action marker at any position, with the
    error for the action; when it has both but no \<^verbatim>\<open>--\<close> is followed by a rest that is
    not empty, with the error for the parameters. In each case the state is unchanged.
\<close>

theorem parse_extracts_triple:
  assumes "\<not> list_ex isLineTerminator command"
  shows "(name \<in> set agentNames \<and> startsWithI command name
          \<and> firstActionAt command ka \<and> firstDashesAt command kp \<and> drop (kp + 2) command \<noteq> [] \<longrightarrow>
            parseCommand command =
              Inr (toLowerCase name,
                   toLowerCase (takeWhile isWordChar (drop (ka + 3) command)),
                   trim (drop (kp + 2) command))
            \<and> parseAndExecute st command =
                executeAction parseAndExecute st (toLowerCase name)
                  (toLowerCase (takeWhile isWordChar (drop (ka + 3) command)))
                  (trim (drop (kp + 2) command)))
       \<and> (list_all (\<lambda>name. \<not> startsWithI command name) agentNames \<longrightarrow>
            parseAndExecute st command = (Inl (Error ''Command must start with II name''), st))
       \<and> (name \<in> set agentNames \<and> startsWithI command name
          \<and> list_all (\<lambda>k. \<not> actionAt (drop k command)) [0..<length command] \<longrightarrow>
            parseAndExecute st command =
              (Inl (Error ''Invalid action format. Use: Ex.[action]''), st))
       \<and> (name \<in> set agentNames \<and> startsWithI command name \<and> firstActionAt command ka
          \<and> list_all (\<lambda>k. startsWith (drop k command) ''--'' \<longrightarrow> drop (k + 2) command = [])
               [0..<length command] \<longrightarrow>
            parseAndExecute st command =
              (Inl (Error ''Missing parameters. Use: -- [params]''), st))"
proof (intro conjI impI)
  assume a: "name \<in> set agentNames \<and> startsWithI command name
          \<and> firstActionAt command ka \<and> firstDashesAt command kp \<and> drop (kp + 2) command \<noteq> []"
  then have n: "name \<in> set agentNames" "startsWithI command name"
    and fa: "firstActionAt command ka" and fd: "firstDashesAt command kp"
    and ne: "drop (kp + 2) command \<noteq> []"
    by simp_all
  from matchParams_first [OF fd ne assms] obtain g where
    g: "matchParams command = Some g" "trim g = trim (drop (kp + 2) command)"
    by blast
  show p: "parseCommand command =
              Inr (toLowerCase name,
                   toLowerCase (takeWhile isWordChar (drop (ka + 3) command)),
                   trim (drop (kp + 2) command))"
    by (simp add: parseCommand_def matchII_agent [OF n] matchAction_first [OF fa] g
        startsWithI_lower [OF n(2)])
  show "parseAndExecute st command =
                executeAction parseAndExecute st (toLowerCase name)
                  (toLowerCase (takeWhile isWordChar (drop (ka + 3) command)))
                  (trim (drop (kp + 2) command))"
    by (subst parseAndExecute.simps) (simp add: p)
next
  assume "list_all (\<lambda>name. \<not> startsWithI command name) agentNames"
  then have "matchII command = None" by (rule matchII_None)
  then show "parseAndExecute st command = (Inl (Error ''Command must start with II name''), st)"
    by (subst parseAndExecute.simps) (simp add: parseCommand_def)
next
  assume a: "name \<in> set agentNames \<and> startsWithI command name
          \<and> list_all (\<lambda>k. \<not> actionAt (drop k command)) [0..<length command]"
  then have n: "name \<in> set agentNames" "startsWithI command name" by simp_all
  from a have "matchAction command = None" by (simp add: matchAction_None)
  then show "parseAndExecute st command =
              (Inl (Error ''Invalid action format. Use: Ex.[action]''), st)"
    by (subst parseAndExecute.simps) (simp add: parseCommand_def matchII_agent [OF n])
next
  assume a: "name \<in> set agentNames \<and> startsWithI command name \<and> firstActionAt command ka
          \<and> list_all (\<lambda>k. startsWith (drop k command) ''--'' \<longrightarrow> drop (k + 2) command = [])
               [0..<length command]"
  then have n: "name \<in> set agentNames" "startsWithI command name"
    and fa: "firstActionAt command ka" by simp_all
  from a have "matchParams command = None" by (simp add: matchParams_None)
  then show "parseAndExecute st command =
              (Inl (Error ''Missing parameters. Use: -- [params]''), st)"
    by (subst parseAndExecute.simps)
       (simp add: parseCommand_def matchII_agent [OF n] matchAction_first [OF fa])
qed


lemma parse_example:
  "\<not> list_ex isLineTerminator ''Raitha Ex.watch -- a -- b''"
  "''Raitha'' \<in> set agentNames"
  "startsWithI ''Raitha Ex.watch -- a -- b'' ''Raitha''"
  "firstActionAt ''Raitha Ex.watch -- a -- b'' 7"
  "firstDashesAt ''Raitha Ex.watch -- a -- b'' 16"
  "drop (16 + 2) ''Raitha Ex.watch -- a -- b'' \<noteq> []"
  "toLowerCase ''Raitha'' = ''raitha''"
  "toLowerCase (takeWhile isWordChar (drop (7 + 3) ''Raitha Ex.watch -- a -- b'')) = ''watch''"
  "trim (drop (16 + 2) ''Raitha Ex.watch -- a -- b'') = ''a -- b''"
  by code_simp+

lemma parse_example_failures:
  "\<not> list_ex isLineTerminator ''Hello Ex.watch -- a''"
  "list_all (\<lambda>name. \<not> startsWithI ''Hello Ex.watch -- a'' name) agentNames"
  "\<not> list_ex isLineTerminator ''Raitha watch -- a''"
  "startsWithI ''Raitha watch -- a'' ''Raitha''"
  "list_all (\<lambda>k. \<not> actionAt (drop k ''Raitha watch -- a'')) [0..<length ''Raitha watch -- a'']"
  "\<not> list_ex isLineTerminator ''Raitha Ex.watch a''"
  "startsWithI ''Raitha Ex.watch a'' ''Raitha''"
  "firstActionAt ''Raitha Ex.watch a'' 7"
  "list_all (\<lambda>k. startsWith (drop k ''Raitha Ex.watch a'') ''--''
               \<longrightarrow> drop (k + 2) ''Raitha Ex.watch a'' = [])
     [0..<length ''Raitha Ex.watch a'']"
  by code_simp+

theorem parse_extracts_triple_witness:
  "\<not> list_ex isLineTerminator ''Raitha Ex.watch -- a -- b''
   \<and> ''Raitha'' \<in> set agentNames
   \<and> startsWithI ''Raitha Ex.watch -- a -- b'' ''Raitha''
   \<and> firstActionAt ''Raitha Ex.watch -- a -- b'' 7
   \<and> firstDashesAt ''Raitha Ex.watch -- a -- b'' 16
   \<and> drop (16 + 2) ''Raitha Ex.watch -- a -- b'' \<noteq> []
   \<and> parseCommand ''Raitha Ex.watch -- a -- b'' = Inr (''raitha'', ''watch'', ''a -- b'')
   \<and> list_all (\<lambda>name. \<not> startsWithI ''Hello Ex.watch -- a'' name) agentNames
   \<and> parseAndExecute (initialState ''localhost'' True) ''Hello Ex.watch -- a'' =
       (Inl (Error ''Command must start with II name''), initialState ''localhost'' True)
   \<and> list_all (\<lambda>k. \<not> actionAt (drop k ''Raitha watch -- a'')) [0..<length ''Raitha watch -- a'']
   \<and> parseAndExecute (initialState ''localhost'' True) ''Raitha watch -- a'' =
       (Inl (Error ''Invalid action format. Use: Ex.[action]''), initialState ''localhost'' True)
   \<and> list_all (\<lambda>k. startsWith (drop k ''Raitha Ex.watch a'') ''--''
                 \<longrightarrow> drop (k + 2) ''Raitha Ex.watch a'' = [])
        [0..<length ''Raitha Ex.watch a'']
   \<and> parseAndExecute (initialState ''localhost'' True) ''Raitha Ex.watch a'' =
       (Inl (Error ''Missing parameters. Use: -- [params]''), initialState ''localhost'' True)"
proof -
  let ?st = "initialState ''localhost'' True"
  from parse_extracts_triple [OF parse_example(1), of "''Raitha''" 7 16 ?st]
  have 1: "parseCommand ''Raitha Ex.watch -- a -- b'' = Inr (''raitha'', ''watch'', ''a -- b'')"
    using parse_example by simp
  from parse_extracts_triple [OF parse_example_failures(1), of "''Raitha''" 0 0 ?st]
  have 2: "parseAndExecute ?st ''Hello Ex.watch -- a'' =
       (Inl (Error ''Command must start with II name''), ?st)"
    using parse_example_failures(2) by blast
  from parse_extracts_triple [OF parse_example_failures(3), of "''Raitha''" 0 0 ?st]
  have 3: "parseAndExecute ?st ''Raitha watch -- a'' =
       (Inl (Error ''Invalid action format. Use: Ex.[action]''), ?st)"
    using parse_example(2) parse_example_failures(4,5) by blast
  from parse_extracts_triple [OF parse_example_failures(6), of "''Raitha''" 7 0 ?st]
  have 4: "parseAndExecute ?st ''Raitha Ex.watch a'' =
       (Inl (Error ''Missing parameters. Use: -- [params]''), ?st)"
    using parse_example(2) parse_example_failures(7,8,9) by blast
  from 1 2 3 4 parse_example parse_example_failures show ?thesis
    by simp
qed

text \<open>
  Claim C1 as stated fails for a line that has \<^verbatim>\<open>ex.watch\<close> in lower case: it contains
  no substring \<^verbatim>\<open>Ex.\<close>, and yet it is accepted, with the action \<^verbatim>\<open>watch\<close>.
\<close>

theorem parse_action_marker_counterexample:
  "\<not> includesStr ''Raitha ex.watch -- a'' ''Ex.''
   \<and> parseCommand ''Raitha ex.watch -- a'' = Inr (''raitha'', ''watch'', ''a'')"
  by code_simp

subsection \<open>Dispatching a command keeps the pending timers\<close>

lemma keepsTimers_refl [simp]: "keepsTimers st st"
  by (simp add: keepsTimers_def)

lemma keepsTimers_trans: "keepsTimers a b \<Longrightarrow> keepsTimers b c \<Longrightarrow> keepsTimers a c"
  by (auto simp: keepsTimers_def)

lemma keepsTimers_same:
  "timers st' = timers st \<Longrightarrow> clock st' = clock st \<Longrightarrow> keepsTimers st st'"
  by (simp add: keepsTimers_def)

lemma keepsTimers_log [simp]:
  "keepsTimers st (logInfo st m)" "keepsTimers st (logSuccess st m)"
  "keepsTimers st (logError st m)" "keepsTimers st (logWarning st m)"
  by (simp_all add: keepsTimers_def logInfo_def logSuccess_def logError_def logWarning_def)

lemma keepsTimers_log2 [simp]:
  "keepsTimers st st' \<Longrightarrow> keepsTimers st (logInfo st' m)"
  "keepsTimers st st' \<Longrightarrow> keepsTimers st (logSuccess st' m)"
  "keepsTimers st st' \<Longrightarrow> keepsTimers st (logError st' m)"
  "keepsTimers st st' \<Longrightarrow> keepsTimers st (logWarning st' m)"
  by (simp_all add: keepsTimers_def logInfo_def logSuccess_def logError_def logWarning_def)

lemma keepsTimers_setTimeout [simp]:
  "keepsTimers st st' \<Longrightarrow> keepsTimers st (setTimeout st' cb d)"
  by (auto simp: keepsTimers_def setTimeout_def)

lemma keepsTimers_openTabs [simp]:
  "keepsTimers st st' \<Longrightarrow> keepsTimers st (openTabs st' url n type)"
  by (simp add: keepsTimers_def openTabs_frame)

lemma clock_openTabsWithRefresh: "clock (openTabsWithRefresh st url d n) = clock st"
  by (simp add: openTabsWithRefresh_def Let_def fold_setInterval openTabs_frame)

lemma keepsTimers_convert:
  "convertToEmbedUrl st url a = (r, st') \<Longrightarrow> keepsTimers st st'"
  by (auto simp: convertToEmbedUrl_def split: if_splits)

lemma keepsTimers_Raitha: "keepsTimers st (snd (executeRaithaCommand st action params))"
proof -
  have w: "keepsTimers st (snd (executeWatch st params))"
    by (auto simp: executeWatch_def Let_def dest: keepsTimers_convert
        split: option.splits prod.splits sum.splits)
  have l: "keepsTimers st (snd (executeLurk st params))"
    by (auto simp: executeLurk_def Let_def dest: keepsTimers_convert
        split: option.splits prod.splits sum.splits)
  have r: "keepsTimers st (snd (executeRefresh st params))"
    by (auto simp: executeRefresh_def Let_def keepsTimers_def openTabsWithRefresh_timers
        clock_openTabsWithRefresh split: option.splits)
  have fm: "keepsTimers st (fold (muteOne b) ids st)" for b ids
    by (simp add: fold_muteOne keepsTimers_def)
  have "timers (fold (setMuted b) ts s) = timers s \<and> clock (fold (setMuted b) ts s) = clock s"
    for b ts s
    by (induction ts arbitrary: s) (simp_all add: setMuted_def)
  then have fs: "keepsTimers s (fold (setMuted b) ts s)" for b ts s
    by (simp add: keepsTimers_def)
  have m: "keepsTimers st (snd (executeMute st params))"
    by (simp add: executeMute_def Let_def fm fs)
  have u: "keepsTimers st (snd (executeUnmute st params))"
    by (simp add: executeUnmute_def Let_def fm fs)
  have s: "keepsTimers st (snd (executeScroll st params))"
    by (simp add: executeScroll_def)
  have f: "keepsTimers st (snd (executeFullscreen st params))"
    by (simp add: executeFullscreen_def Let_def split: option.splits)
  show ?thesis
    by (simp add: executeRaithaCommand_def w l r m u s f)
qed

lemma keepsTimers_Rena: "keepsTimers st (snd (executeRenaCommand st action params))"
proof -
  have 1: "keepsTimers st (snd (executeTest st params))"
    by (simp add: executeTest_def Let_def split: option.splits)
  have 2: "keepsTimers st (snd (executeScrape st params))"
    by (simp add: executeScrape_def Let_def split: option.splits)
  have 3: "keepsTimers st (snd (executeCompare st params))"
    by (simp add: executeCompare_def Let_def split: option.splits)
  have 4: "keepsTimers st (snd (executeMonitor st params))"
    by (simp add: executeMonitor_def Let_def split: option.splits)
  have 5: "keepsTimers st (snd (executeDownload st params))"
    by (simp add: executeDownload_def)
  have 6: "keepsTimers st (snd (executePing st params))"
    by (simp add: executePing_def Let_def split: option.splits)
  show ?thesis
    by (simp add: executeRenaCommand_def 1 2 3 4 5 6)
qed

lemma keepsTimers_chainSequence:
  assumes "index < length commands \<Longrightarrow> keepsTimers st (snd (pe st (commands ! index)))"
  shows "keepsTimers st (executeChainSequence pe st commands index)"
  using assms
  by (auto simp: executeChainSequence_def split: prod.splits sum.splits error.splits)

lemma keepsTimers_Leaf:
  assumes "\<And>s. keepsTimers s (snd (pe s (trim (piece0 ''->'' params))))"
  shows "keepsTimers st (snd (executeLeafCommand pe st action params))"
proof -
  have 1: "keepsTimers st (snd (executeSchedule st params))"
    by (simp add: executeSchedule_def Let_def keepsTimers_def logInfo_def split: option.splits)
  have 2: "keepsTimers st (snd (executeLoop st params))"
    by (auto simp: executeLoop_def Let_def keepsTimers_def startLoop_def setInterval_def
        logInfo_def split: option.splits)
  have 3: "keepsTimers st (snd (executeBatch st params))"
    by (simp add: executeBatch_def)
  have 4: "keepsTimers st (snd (executeParallel st params))"
    by (simp add: executeParallel_def Let_def fold_setTimeout keepsTimers_def logInfo_def)
  obtain x xs where sp: "splitOn ''->'' params = x # xs"
    using splitOn_not_Nil [of "''->''" params] by (cases "splitOn ''->'' params") auto
  then have p0: "piece0 ''->'' params = x" by (simp add: piece0_def)
  have 5: "keepsTimers st (snd (executeChain pe st params))"
    unfolding executeChain_def Let_def snd_conv
    by (rule keepsTimers_trans [OF keepsTimers_log(1)], rule keepsTimers_chainSequence)
       (use assms in \<open>simp add: sp p0\<close>)
  have 6: "keepsTimers st (snd (executeRotate st params))"
    by (simp add: executeRotate_def Let_def split: option.splits)
  show ?thesis
    by (simp add: executeLeafCommand_def 1 2 3 4 5 6)
qed

lemma keepsTimers_parseAndExecute: "keepsTimers st (snd (parseAndExecute st command))"
proof (induction st command rule: parseAndExecute.induct)
  case (1 st command)
  show ?case
  proof (cases "parseCommand command")
    case (Inl e)
    then show ?thesis by (subst parseAndExecute.simps) simp
  next
    case (Inr triple)
    obtain iiName action params where t: "triple = (iiName, action, params)"
      by (cases triple) auto
    have "keepsTimers s (snd (parseAndExecute s (trim (piece0 ''->'' params))))" for s
      using "1.IH" Inr t by simp
    then have "keepsTimers st (snd (executeLeafCommand parseAndExecute st action params))"
      by (rule keepsTimers_Leaf)
    then show ?thesis
      by (subst parseAndExecute.simps)
         (simp add: Inr t executeAction_def keepsTimers_Raitha keepsTimers_Rena)
  qed
qed

subsection \<open>Commands that schedule nothing\<close>

lemma sameTimers_refl [simp]: "sameTimers st st"
  by (simp add: sameTimers_def)

lemma sameTimers_log [simp]:
  "sameTimers st st' \<Longrightarrow> sameTimers st (logInfo st' m)"
  "sameTimers st st' \<Longrightarrow> sameTimers st (logSuccess st' m)"
  "sameTimers st st' \<Longrightarrow> sameTimers st (logError st' m)"
  "sameTimers st st' \<Longrightarrow> sameTimers st (logWarning st' m)"
  by (simp_all add: sameTimers_def logInfo_def logSuccess_def logError_def logWarning_def)

lemma sameTimers_openTabs [simp]:
  "sameTimers st st' \<Longrightarrow> sameTimers st (openTabs st' url n type)"
  by (simp add: sameTimers_def openTabs_frame)

lemma sameTimers_convert:
  "convertToEmbedUrl st url a = (r, st') \<Longrightarrow> sameTimers st st'"
  by (auto simp: convertToEmbedUrl_def split: if_splits)

lemma sameTimers_Raitha:
  assumes "action \<noteq> ''refresh''"
  shows "sameTimers st (snd (executeRaithaCommand st action params))"
proof -
  have w: "sameTimers st (snd (executeWatch st params))"
    by (auto simp: executeWatch_def Let_def dest: sameTimers_convert
        split: option.splits prod.splits sum.splits)
  have l: "sameTimers st (snd (executeLurk st params))"
    by (auto simp: executeLurk_def Let_def dest: sameTimers_convert
        split: option.splits prod.splits sum.splits)
  have fm: "sameTimers st (fold (muteOne b) ids st)" for b ids
    by (simp add: fold_muteOne sameTimers_def)
  have "timers (fold (setMuted b) ts s) = timers s \<and> clock (fold (setMuted b) ts s) = clock s
        \<and> nextHandle (fold (setMuted b) ts s) = nextHandle s"
    for b ts s
    by (induction ts arbitrary: s) (simp_all add: setMuted_def)
  then have fs: "sameTimers s (fold (setMuted b) ts s)" for b ts s
    by (simp add: sameTimers_def)
  have m: "sameTimers st (snd (executeMute st params))"
    by (simp add: executeMute_def Let_def fm fs)
  have u: "sameTimers st (snd (executeUnmute st params))"
    by (simp add: executeUnmute_def Let_def fm fs)
  have s: "sameTimers st (snd (executeScroll st params))"
    by (simp add: executeScroll_def)
  have f: "sameTimers st (snd (executeFullscreen st params))"
    by (simp add: executeFullscreen_def Let_def split: option.splits)
  show ?thesis
    using assms by (simp add: executeRaithaCommand_def w l m u s f)
qed

lemma sameTimers_Rena: "sameTimers st (snd (executeRenaCommand st action params))"
proof -
  have 1: "sameTimers st (snd (executeTest st params))"
    by (simp add: executeTest_def Let_def split: option.splits)
  have 2: "sameTimers st (snd (executeScrape st params))"
    by (simp add: executeScrape_def Let_def split: option.splits)
  have 3: "sameTimers st (snd (executeCompare st params))"
    by (simp add: executeCompare_def Let_def split: option.splits)
  have 4: "sameTimers st (snd (executeMonitor st params))"
    by (simp add: executeMonitor_def Let_def split: option.splits)
  have 5: "sameTimers st (snd (executeDownload st params))"
    by (simp add: executeDownload_def)
  have 6: "sameTimers st (snd (executePing st params))"
    by (simp add: executePing_def Let_def split: option.splits)
  show ?thesis
    by (simp add: executeRenaCommand_def 1 2 3 4 5 6)
qed

lemma sameTimers_Leaf:
  assumes "action \<notin> {''loop'', ''parallel'', ''chain''}"
  shows "sameTimers st (snd (executeLeafCommand pe st action params))"
proof -
  have 1: "sameTimers st (snd (executeSchedule st params))"
    by (simp add: executeSchedule_def Let_def sameTimers_def logInfo_def split: option.splits)
  have 3: "sameTimers st (snd (executeBatch st params))"
    by (simp add: executeBatch_def)
  have 6: "sameTimers st (snd (executeRotate st params))"
    by (simp add: executeRotate_def Let_def split: option.splits)
  show ?thesis
    using assms by (simp add: executeLeafCommand_def 1 3 6)
qed

lemma sameTimers_parseAndExecute:
  assumes "schedulesNothing cmd"
  shows "sameTimers st (snd (parseAndExecute st cmd))"
proof (cases "parseCommand cmd")
  case (Inl e)
  then show ?thesis by (subst parseAndExecute.simps) simp
next
  case (Inr triple)
  obtain iiName action params where t: "triple = (iiName, action, params)"
    by (cases triple) auto
  from assms Inr t have a: "\<not> (iiName = ''raitha'' \<and> action = ''refresh'')"
    and b: "\<not> (iiName = ''leaf'' \<and> action \<in> {''loop'', ''parallel'', ''chain''})"
    by (simp_all add: schedulesNothing_def)
  show ?thesis
    using a b
    by (subst parseAndExecute.simps)
       (auto simp: Inr t executeAction_def sameTimers_Raitha sameTimers_Rena sameTimers_Leaf)
qed

subsection \<open>Parallel commands\<close>

lemma parallelTimers_Cons:
  assumes "j < length commands"
  shows "parallelTimers h0 t0 j commands =
           \<lparr>handle = h0 + j, due = t0 + j * 100, period = None,
            callback = ParallelCommand (commands ! j) j\<rparr> # parallelTimers h0 t0 (Suc j) commands"
  using assms by (simp add: parallelTimers_def Cons_nth_drop_Suc [symmetric])

lemma parallelTimers_end: "length commands \<le> j \<Longrightarrow> parallelTimers h0 t0 j commands = []"
  by (simp add: parallelTimers_def)

lemma parallelTimers_later:
  assumes "t \<in> set (parallelTimers h0 t0 j commands)"
  shows "h0 + j \<le> handle t \<and> t0 + j * 100 \<le> due t"
  using assms by (auto simp: parallelTimers_def in_set_enumerate_eq)

lemma drop_enumerate: "drop m (enumerate n xs) = enumerate (n + m) (drop m xs)"
proof (induction xs arbitrary: n m)
  case Nil
  show ?case by simp
next
  case (Cons x xs)
  then show ?case by (cases m) simp_all
qed

lemma parallelTimers_drop:
  "drop j (parallelTimers h0 t0 0 commands) = parallelTimers h0 t0 j commands"
  by (simp add: parallelTimers_def drop_map drop_enumerate)

lemma parallel_turn:
  assumes q: "timers s = parallelTimers h0 t0 j commands"
    and j: "j < length commands"
    and c: "clock s \<le> t0 + j * 100"
  shows "runNext s =
           fire (s\<lparr>clock := t0 + j * 100, timers := parallelTimers h0 t0 (Suc j) commands\<rparr>)
             (ParallelCommand (commands ! j) j)"
proof -
  let ?t = "\<lparr>handle = h0 + j, due = t0 + j * 100, period = None,
            callback = ParallelCommand (commands ! j) j\<rparr>"
  let ?rest = "parallelTimers h0 t0 (Suc j) commands"
  have ts: "timers s = ?t # ?rest"
    using q j by (simp add: parallelTimers_Cons)
  have later: "\<forall>t' \<in> set ?rest. h0 + Suc j \<le> handle t' \<and> t0 + Suc j * 100 \<le> due t'"
    using parallelTimers_later by blast
  then have "\<forall>t' \<in> set ?rest. due ?t \<le> due t'" by auto
  then have n: "nextTimer (timers s) = Some ?t"
    unfolding ts by (rule nextTimer_head)
  from later have "\<forall>t' \<in> set ?rest. handle t' \<noteq> h0 + j" by auto
  then have f: "filter (\<lambda>t'. handle t' \<noteq> h0 + j) ?rest = ?rest"
    by (simp add: filter_id_conv)
  show ?thesis
    using c by (simp add: runNext_def n Let_def max_def) (simp add: ts f)
qed

lemma sameTimers_parallelCommand:
  assumes "schedulesNothing cmd"
  shows "sameTimers s (fire s (ParallelCommand cmd i))"
proof (cases "parseAndExecute s cmd")
  case (Pair r s1)
  with sameTimers_parseAndExecute [OF assms, of s] have "sameTimers s s1" by simp
  with Pair show ?thesis
    by (auto simp: parallelCommand_def split: sum.splits error.splits)
qed

lemma executeParallel_eq:
  "executeParallel st params =
     (Inr (showNat (length (splitOn ''|'' params)) @ '' commands running in parallel''),
      (logInfo st (''Executing '' @ showNat (length (splitOn ''|'' params))
                   @ '' commands in parallel''))
        \<lparr>timers := timers st @
           map (\<lambda>(i, cmd). \<lparr>handle = nextHandle st + i, due = clock st + i * 100,
                           period = None, callback = ParallelCommand cmd i\<rparr>)
             (enumerate 0 (map trim (splitOn ''|'' params))),
         nextHandle := nextHandle st + length (splitOn ''|'' params)\<rparr>)"
  by (simp add: executeParallel_def Let_def
      fold_setTimeout [where cb = "\<lambda>i c. ParallelCommand c i" and d = "\<lambda>i. i * 100"]
      logInfo_def)

lemma parallel_run:
  assumes quiet: "timers st = []"
    and plain: "\<forall>c \<in> set (splitOn ''|'' params). schedulesNothing (trim c)"
    and j: "j \<le> length (splitOn ''|'' params)"
  shows "timers ((runNext ^^ j) (snd (executeParallel st params))) =
           drop j (timers (snd (executeParallel st params)))
         \<and> clock ((runNext ^^ j) (snd (executeParallel st params))) \<le> clock st + j * 100
         \<and> (j < length (splitOn ''|'' params) \<longrightarrow>
              (runNext ^^ Suc j) (snd (executeParallel st params)) =
                fire (((runNext ^^ j) (snd (executeParallel st params)))
                        \<lparr>clock := clock st + j * 100,
                         timers := drop (Suc j) (timers (snd (executeParallel st params)))\<rparr>)
                  (ParallelCommand (trim (splitOn ''|'' params ! j)) j))"
proof -
  let ?S = "snd (executeParallel st params)"
  let ?cmds = "map trim (splitOn ''|'' params)"
  let ?Q = "\<lambda>j. parallelTimers (nextHandle st) (clock st) j ?cmds"
  have tS: "timers ?S = ?Q 0"
    using quiet by (simp add: executeParallel_eq parallelTimers_def)
  have cS: "clock ?S = clock st"
    by (simp add: executeParallel_eq logInfo_def)
  have dr: "drop k (timers ?S) = ?Q k" for k
    unfolding tS by (rule parallelTimers_drop)
  have inv: "timers ((runNext ^^ j) ?S) = ?Q j \<and> clock ((runNext ^^ j) ?S) \<le> clock st + j * 100"
    using j
  proof (induction j)
    case 0
    then show ?case by (simp add: tS cS)
  next
    case (Suc k)
    then have k: "k < length ?cmds" and q: "timers ((runNext ^^ k) ?S) = ?Q k"
      and c: "clock ((runNext ^^ k) ?S) \<le> clock st + k * 100"
      by simp_all
    let ?s = "((runNext ^^ k) ?S)\<lparr>clock := clock st + k * 100, timers := ?Q (Suc k)\<rparr>"
    have r: "(runNext ^^ Suc k) ?S = fire ?s (ParallelCommand (?cmds ! k) k)"
      using parallel_turn [OF q k c] by simp
    from k plain have "schedulesNothing (?cmds ! k)" by simp
    from sameTimers_parallelCommand [OF this, of ?s k]
    show ?case unfolding r by (simp add: sameTimers_def)
  qed
  have "(runNext ^^ Suc j) ?S =
          fire (((runNext ^^ j) ?S)\<lparr>clock := clock st + j * 100, timers := ?Q (Suc j)\<rparr>)
            (ParallelCommand (trim (splitOn ''|'' params ! j)) j)"
    if "j < length (splitOn ''|'' params)"
  proof -
    from that have k: "j < length ?cmds" by simp
    from inv have q: "timers ((runNext ^^ j) ?S) = ?Q j"
      and c: "clock ((runNext ^^ j) ?S) \<le> clock st + j * 100" by simp_all
    from parallel_turn [OF q k c] that show ?thesis by simp
  qed
  with inv show ?thesis by (simp add: dr)
qed

lemma parallelCommand_cases:
  "(fst (parseAndExecute s cmd) = Inr res \<longrightarrow>
      fire s (ParallelCommand cmd i) = snd (parseAndExecute s cmd))
   \<and> (fst (parseAndExecute s cmd) = Inl (Error msg) \<longrightarrow>
      fire s (ParallelCommand cmd i) =
        logError (snd (parseAndExecute s cmd))
          (''Parallel command '' @ showNat (i + 1) @ '' failed: '' @ msg))"
  by (cases "parseAndExecute s cmd") (auto simp: parallelCommand_def)

lemma keepsTimers_parallelCommand: "keepsTimers s (fire s (ParallelCommand cmd i))"
proof (cases "parseAndExecute s cmd")
  case (Pair r s1)
  with keepsTimers_parseAndExecute [of s cmd] have "keepsTimers s s1" by simp
  with Pair show ?thesis
    by (auto simp: parallelCommand_def split: sum.splits error.splits)
qed

lemma runNext_keeps_others:
  assumes "nextTimer (timers s) = Some t"
    and "\<And>s'. keepsTimers s' (fire s' (callback t))"
  shows "\<exists>new. timers (runNext s) = filter (\<lambda>t'. handle t' \<noteq> handle t) (timers s) @ new"
proof -
  let ?others = "filter (\<lambda>t'. handle t' \<noteq> handle t) (timers s)"
  let ?now = "max (clock s) (due t)"
  let ?queue = "case period t of None \<Rightarrow> ?others | Some d \<Rightarrow> ?others @ [t\<lparr>due := ?now + d\<rparr>]"
  let ?s = "s\<lparr>clock := ?now, timers := ?queue\<rparr>"
  have r: "runNext s = fire ?s (callback t)"
    using assms(1) by (simp add: runNext_def Let_def)
  from assms(2) [of ?s] obtain new where "timers (fire ?s (callback t)) = ?queue @ new"
    by (auto simp: keepsTimers_def)
  then show ?thesis
    unfolding r by (cases "period t") auto
qed

text \<open>
  Claim C5. A parallel command never fails and dispatches nothing itself: it splits its
  parameters on \<^verbatim>\<open>|\<close>, trims the parts, and schedules one timeout per part, the part at
  index \<open>i\<close> due \<open>100 * i\<close> ms after the command. When the timeout of a part fires, the
  part is parsed and dispatched in the state of that moment: if the dispatch succeeds,
  the callback leaves exactly the state the dispatch produced; if it fails, the
  callback adds one error line for this part to the log and nothing else. In both
  cases every timer that was pending is still pending afterwards, so one turn of the
  event loop on such a timeout removes this timeout only and the timeouts of the
  siblings stay in the queue. In the log, the parallel command itself writes one info
  line; a part that fails adds exactly one failure line, with its number and the error
  message, after whatever its dispatch wrote; a part that succeeds adds nothing to what
  its dispatch wrote. On a page where no other timer is pending and for parts
  that schedule nothing themselves, the whole run follows: turn \<open>j + 1\<close> of the event
  loop is the dispatch of part \<open>j\<close>, at 100 * \<open>j\<close> ms after the command and with exactly
  the timeouts of the later parts pending, whatever the earlier parts did; after as
  many turns as there are parts, every part has been dispatched and the queue is empty.
\<close>

theorem parallel_commands_are_independent:
  "executeParallel st params =
     (Inr (showNat (length (splitOn ''|'' params)) @ '' commands running in parallel''),
      (logInfo st (''Executing '' @ showNat (length (splitOn ''|'' params))
                   @ '' commands in parallel''))
        \<lparr>timers := timers st @
           map (\<lambda>(i, cmd). \<lparr>handle = nextHandle st + i, due = clock st + i * 100,
                           period = None, callback = ParallelCommand cmd i\<rparr>)
             (enumerate 0 (map trim (splitOn ''|'' params))),
         nextHandle := nextHandle st + length (splitOn ''|'' params)\<rparr>)
   \<and> (fst (parseAndExecute s cmd) = Inr res \<longrightarrow>
        fire s (ParallelCommand cmd i) = snd (parseAndExecute s cmd))
   \<and> (fst (parseAndExecute s cmd) = Inl (Error msg) \<longrightarrow>
        fire s (ParallelCommand cmd i) =
          logError (snd (parseAndExecute s cmd))
            (''Parallel command '' @ showNat (i + 1) @ '' failed: '' @ msg))
   \<and> keepsTimers s (fire s (ParallelCommand cmd i))
   \<and> (nextTimer (timers s) = Some t \<and> callback t = ParallelCommand cmd i \<longrightarrow>
        (\<exists>new. timers (runNext s) = filter (\<lambda>t'. handle t' \<noteq> handle t) (timers s) @ new))
   \<and> (timers st = [] \<and> (\<forall>c \<in> set (splitOn ''|'' params). schedulesNothing (trim c)) \<longrightarrow>
        (\<forall>j < length (splitOn ''|'' params).
           (runNext ^^ Suc j) (snd (executeParallel st params)) =
             fire (((runNext ^^ j) (snd (executeParallel st params)))
                     \<lparr>clock := clock st + j * 100,
                      timers := drop (Suc j) (timers (snd (executeParallel st params)))\<rparr>)
               (ParallelCommand (trim (splitOn ''|'' params ! j)) j))
        \<and> timers ((runNext ^^ length (splitOn ''|'' params)) (snd (executeParallel st params))) = [])
   \<and> (fst (parseAndExecute s cmd) = Inl (Error msg) \<longrightarrow>
        outputContent (fire s (ParallelCommand cmd i)) =
          outputContent (snd (parseAndExecute s cmd))
            @ [(Failure, ''Parallel command '' @ showNat (i + 1) @ '' failed: '' @ msg)])
   \<and> (fst (parseAndExecute s cmd) = Inr res \<longrightarrow>
        outputContent (fire s (ParallelCommand cmd i)) =
          outputContent (snd (parseAndExecute s cmd)))
   \<and> outputContent (snd (executeParallel st params)) =
        outputContent st
          @ [(Info, ''Executing '' @ showNat (length (splitOn ''|'' params))
                    @ '' commands in parallel'')]"
proof -
  have 1: "executeParallel st params =
     (Inr (showNat (length (splitOn ''|'' params)) @ '' commands running in parallel''),
      (logInfo st (''Executing '' @ showNat (length (splitOn ''|'' params))
                   @ '' commands in parallel''))
        \<lparr>timers := timers st @
           map (\<lambda>(i, cmd). \<lparr>handle = nextHandle st + i, due = clock st + i * 100,
                           period = None, callback = ParallelCommand cmd i\<rparr>)
             (enumerate 0 (map trim (splitOn ''|'' params))),
         nextHandle := nextHandle st + length (splitOn ''|'' params)\<rparr>)"
    by (rule executeParallel_eq)
  have 5: "nextTimer (timers s) = Some t \<and> callback t = ParallelCommand cmd i \<longrightarrow>
        (\<exists>new. timers (runNext s) = filter (\<lambda>t'. handle t' \<noteq> handle t) (timers s) @ new)"
  proof
    assume a: "nextTimer (timers s) = Some t \<and> callback t = ParallelCommand cmd i"
    then have n: "nextTimer (timers s) = Some t" and c: "callback t = ParallelCommand cmd i"
      by simp_all
    show "\<exists>new. timers (runNext s) = filter (\<lambda>t'. handle t' \<noteq> handle t) (timers s) @ new"
      by (rule runNext_keeps_others [OF n]) (simp only: c keepsTimers_parallelCommand)
  qed
  have 6: "timers st = [] \<and> (\<forall>c \<in> set (splitOn ''|'' params). schedulesNothing (trim c)) \<longrightarrow>
        (\<forall>j < length (splitOn ''|'' params).
           (runNext ^^ Suc j) (snd (executeParallel st params)) =
             fire (((runNext ^^ j) (snd (executeParallel st params)))
                     \<lparr>clock := clock st + j * 100,
                      timers := drop (Suc j) (timers (snd (executeParallel st params)))\<rparr>)
               (ParallelCommand (trim (splitOn ''|'' params ! j)) j))
        \<and> timers ((runNext ^^ length (splitOn ''|'' params)) (snd (executeParallel st params))) = []"
  proof
    assume a: "timers st = [] \<and> (\<forall>c \<in> set (splitOn ''|'' params). schedulesNothing (trim c))"
    then have quiet: "timers st = []"
      and plain: "\<forall>c \<in> set (splitOn ''|'' params). schedulesNothing (trim c)"
      by simp_all
    have "length (timers (snd (executeParallel st params))) = length (splitOn ''|'' params)"
      using quiet by (simp add: executeParallel_eq)
    with parallel_run [OF quiet plain order_refl]
    have e: "timers ((runNext ^^ length (splitOn ''|'' params)) (snd (executeParallel st params))) = []"
      by simp
    from parallel_run [OF quiet plain] e
    show "(\<forall>j < length (splitOn ''|'' params).
           (runNext ^^ Suc j) (snd (executeParallel st params)) =
             fire (((runNext ^^ j) (snd (executeParallel st params)))
                     \<lparr>clock := clock st + j * 100,
                      timers := drop (Suc j) (timers (snd (executeParallel st params)))\<rparr>)
               (ParallelCommand (trim (splitOn ''|'' params ! j)) j))
        \<and> timers ((runNext ^^ length (splitOn ''|'' params)) (snd (executeParallel st params))) = []"
      by (simp add: less_imp_le)
  qed
  from parallelCommand_cases [of s cmd res i msg]
  have 2: "fst (parseAndExecute s cmd) = Inr res \<longrightarrow>
        fire s (ParallelCommand cmd i) = snd (parseAndExecute s cmd)"
    and 3: "fst (parseAndExecute s cmd) = Inl (Error msg) \<longrightarrow>
        fire s (ParallelCommand cmd i) =
          logError (snd (parseAndExecute s cmd))
            (''Parallel command '' @ showNat (i + 1) @ '' failed: '' @ msg)"
    by simp_all
  have 7: "fst (parseAndExecute s cmd) = Inl (Error msg) \<longrightarrow>
        outputContent (fire s (ParallelCommand cmd i)) =
          outputContent (snd (parseAndExecute s cmd))
            @ [(Failure, ''Parallel command '' @ showNat (i + 1) @ '' failed: '' @ msg)]"
    by (cases "parseAndExecute s cmd") (auto simp: parallelCommand_def logError_def)
  have 8: "fst (parseAndExecute s cmd) = Inr res \<longrightarrow>
        outputContent (fire s (ParallelCommand cmd i)) =
          outputContent (snd (parseAndExecute s cmd))"
    by (cases "parseAndExecute s cmd") (auto simp: parallelCommand_def)
  have 9: "outputContent (snd (executeParallel st params)) =
        outputContent st
          @ [(Info, ''Executing '' @ showNat (length (splitOn ''|'' params))
                    @ '' commands in parallel'')]"
    by (simp add: executeParallel_eq logInfo_def)
  show ?thesis
    by (intro conjI 1 2 3 5 6 7 8 9 keepsTimers_parallelCommand)
qed


lemma parallel_example:
  "fst (parseAndExecute parallelExample ''Raitha Ex.watch -- x.1'') =
     Inl (Error ''Invalid streaming platform URL'')"
  "fst (parseAndExecute parallelExample ''Raitha Ex.scroll -- y'') =
     Inr ''Scroll command registered''"
  "nextTimer (timers parallelExample) =
     Some \<lparr>handle = 0, due = 0, period = None,
           callback = ParallelCommand ''Raitha Ex.watch -- x.1'' 0\<rparr>"
  "filter (\<lambda>t'. handle t' \<noteq> 0) (timers parallelExample) =
     [\<lparr>handle = 1, due = 100, period = None,
       callback = ParallelCommand ''Raitha Ex.scroll -- y'' 1\<rparr>]"
  "showNat (0 + 1) = ''1''"
  "showNat 2 = ''2''"
  by code_simp+

text \<open>
  The example on the event loop: the first part fails in the first turn, the second
  part is dispatched in the second turn, and then the queue is empty.
\<close>

lemma parallel_example_run:
  "timers (initialState ''localhost'' True) = []"
  "list_all (\<lambda>c. schedulesNothing (trim c))
     (splitOn ''|'' ''Raitha Ex.watch -- x.1 | Raitha Ex.scroll -- y'')"
  "length (splitOn ''|'' ''Raitha Ex.watch -- x.1 | Raitha Ex.scroll -- y'') = 2"
  "trim (splitOn ''|'' ''Raitha Ex.watch -- x.1 | Raitha Ex.scroll -- y'' ! 1) =
     ''Raitha Ex.scroll -- y''"
  "clock (initialState ''localhost'' True) + 1 * 100 = 100"
  "drop (Suc 1) (timers parallelExample) = []"
  "outputContent ((runNext ^^ 2) parallelExample) =
     [(Info, ''Executing 2 commands in parallel''),
      (Failure, ''Parallel command 1 failed: Invalid streaming platform URL''),
      (Warning, ''Scroll command simulated (cross-origin restrictions apply)'')]"
  "outputContent (snd (parseAndExecute parallelExample ''Raitha Ex.watch -- x.1'')) =
     [(Info, ''Executing 2 commands in parallel'')]"
  "outputContent (snd (parseAndExecute parallelExample ''Raitha Ex.scroll -- y'')) =
     [(Info, ''Executing 2 commands in parallel''),
      (Warning, ''Scroll command simulated (cross-origin restrictions apply)'')]"
  "outputContent (initialState ''localhost'' True) = []"
  by code_simp+

theorem parallel_commands_are_independent_witness:
  "fst (parseAndExecute parallelExample ''Raitha Ex.watch -- x.1'') =
     Inl (Error ''Invalid streaming platform URL'')
   \<and> fst (parseAndExecute parallelExample ''Raitha Ex.scroll -- y'') =
     Inr ''Scroll command registered''
   \<and> nextTimer (timers parallelExample) =
     Some \<lparr>handle = 0, due = 0, period = None,
           callback = ParallelCommand ''Raitha Ex.watch -- x.1'' 0\<rparr>
   \<and> fire parallelExample (ParallelCommand ''Raitha Ex.watch -- x.1'' 0) =
       logError (snd (parseAndExecute parallelExample ''Raitha Ex.watch -- x.1''))
         ''Parallel command 1 failed: Invalid streaming platform URL''
   \<and> fire parallelExample (ParallelCommand ''Raitha Ex.scroll -- y'' 1) =
       snd (parseAndExecute parallelExample ''Raitha Ex.scroll -- y'')
   \<and> (\<exists>new. timers (runNext parallelExample) =
         [\<lparr>handle = 1, due = 100, period = None,
           callback = ParallelCommand ''Raitha Ex.scroll -- y'' 1\<rparr>] @ new)
   \<and> timers (initialState ''localhost'' True) = []
   \<and> list_all (\<lambda>c. schedulesNothing (trim c))
         (splitOn ''|'' ''Raitha Ex.watch -- x.1 | Raitha Ex.scroll -- y'')
   \<and> (runNext ^^ 2) parallelExample =
       fire ((runNext parallelExample)\<lparr>clock := 100, timers := []\<rparr>)
         (ParallelCommand ''Raitha Ex.scroll -- y'' 1)
   \<and> timers ((runNext ^^ 2) parallelExample) = []
   \<and> outputContent parallelExample = [(Info, ''Executing 2 commands in parallel'')]
   \<and> outputContent (fire parallelExample (ParallelCommand ''Raitha Ex.watch -- x.1'' 0)) =
       [(Info, ''Executing 2 commands in parallel''),
        (Failure, ''Parallel command 1 failed: Invalid streaming platform URL'')]
   \<and> outputContent (fire parallelExample (ParallelCommand ''Raitha Ex.scroll -- y'' 1)) =
       [(Info, ''Executing 2 commands in parallel''),
        (Warning, ''Scroll command simulated (cross-origin restrictions apply)'')]
   \<and> outputContent ((runNext ^^ 2) parallelExample) =
       [(Info, ''Executing 2 commands in parallel''),
        (Failure, ''Parallel command 1 failed: Invalid streaming platform URL''),
        (Warning, ''Scroll command simulated (cross-origin restrictions apply)'')]"
proof -
  let ?t = "\<lparr>handle = 0, due = 0, period = None,
            callback = ParallelCommand ''Raitha Ex.watch -- x.1'' 0\<rparr>"
  note a = parallel_commands_are_independent
      [of "initialState ''localhost'' True" "''x''" parallelExample "''Raitha Ex.watch -- x.1''"
          "''x''" 0 "''Invalid streaming platform URL''" ?t]
  note b = parallel_commands_are_independent
      [of "initialState ''localhost'' True" "''x''" parallelExample "''Raitha Ex.scroll -- y''"
          "''Scroll command registered''" 1 "''x''" ?t]
  from a parallel_example(1,5)
  have 1: "fire parallelExample (ParallelCommand ''Raitha Ex.watch -- x.1'' 0) =
       logError (snd (parseAndExecute parallelExample ''Raitha Ex.watch -- x.1''))
         ''Parallel command 1 failed: Invalid streaming platform URL''"
    by simp
  from b parallel_example(2)
  have 2: "fire parallelExample (ParallelCommand ''Raitha Ex.scroll -- y'' 1) =
       snd (parseAndExecute parallelExample ''Raitha Ex.scroll -- y'')"
    by simp
  from a parallel_example(3,4)
  have 3: "\<exists>new. timers (runNext parallelExample) =
         [\<lparr>handle = 1, due = 100, period = None,
           callback = ParallelCommand ''Raitha Ex.scroll -- y'' 1\<rparr>] @ new"
    by simp
  note g = parallel_commands_are_independent
      [of "initialState ''localhost'' True" "''Raitha Ex.watch -- x.1 | Raitha Ex.scroll -- y''"
          parallelExample "''x''" "''x''" 0 "''x''" ?t,
       THEN conjunct2, THEN conjunct2, THEN conjunct2, THEN conjunct2, THEN conjunct2,
       THEN conjunct1]
  note a7 = a [THEN conjunct2, THEN conjunct2, THEN conjunct2, THEN conjunct2, THEN conjunct2,
       THEN conjunct2, THEN conjunct1]
  note b8 = b [THEN conjunct2, THEN conjunct2, THEN conjunct2, THEN conjunct2, THEN conjunct2,
       THEN conjunct2, THEN conjunct2, THEN conjunct1]
  note g9 = parallel_commands_are_independent
      [of "initialState ''localhost'' True" "''Raitha Ex.watch -- x.1 | Raitha Ex.scroll -- y''"
          parallelExample "''x''" "''x''" 0 "''x''" ?t,
       THEN conjunct2, THEN conjunct2, THEN conjunct2, THEN conjunct2, THEN conjunct2,
       THEN conjunct2, THEN conjunct2, THEN conjunct2]
  from g9 have 6: "outputContent parallelExample = [(Info, ''Executing 2 commands in parallel'')]"
    unfolding parallelExample_def [symmetric] parallel_example_run(3,10)
    by (simp add: parallel_example(6))
  from a7 parallel_example(1,5)
  have 7: "outputContent (fire parallelExample (ParallelCommand ''Raitha Ex.watch -- x.1'' 0)) =
       [(Info, ''Executing 2 commands in parallel''),
        (Failure, ''Parallel command 1 failed: Invalid streaming platform URL'')]"
    unfolding parallel_example_run(8) by simp
  from b8 parallel_example(2)
  have 8: "outputContent (fire parallelExample (ParallelCommand ''Raitha Ex.scroll -- y'' 1)) =
       [(Info, ''Executing 2 commands in parallel''),
        (Warning, ''Scroll command simulated (cross-origin restrictions apply)'')]"
    unfolding parallel_example_run(9) by simp
  from g parallel_example_run(1) parallel_example_run(2) [unfolded list_all_iff]
  have all: "\<forall>j < length (splitOn ''|'' ''Raitha Ex.watch -- x.1 | Raitha Ex.scroll -- y'').
           (runNext ^^ Suc j) parallelExample =
             fire (((runNext ^^ j) parallelExample)
                     \<lparr>clock := clock (initialState ''localhost'' True) + j * 100,
                      timers := drop (Suc j) (timers parallelExample)\<rparr>)
               (ParallelCommand
                  (trim (splitOn ''|'' ''Raitha Ex.watch -- x.1 | Raitha Ex.scroll -- y'' ! j)) j)"
    and e: "timers ((runNext ^^ length (splitOn ''|'' ''Raitha Ex.watch -- x.1 | Raitha Ex.scroll -- y''))
              parallelExample) = []"
    unfolding parallelExample_def by blast+
  from all have "1 < length (splitOn ''|'' ''Raitha Ex.watch -- x.1 | Raitha Ex.scroll -- y'') \<longrightarrow>
           (runNext ^^ Suc 1) parallelExample =
             fire (((runNext ^^ 1) parallelExample)
                     \<lparr>clock := clock (initialState ''localhost'' True) + 1 * 100,
                      timers := drop (Suc 1) (timers parallelExample)\<rparr>)
               (ParallelCommand
                  (trim (splitOn ''|'' ''Raitha Ex.watch -- x.1 | Raitha Ex.scroll -- y'' ! 1)) 1)"
    by blast
  then have 4: "(runNext ^^ 2) parallelExample =
       fire ((runNext parallelExample)\<lparr>clock := 100, timers := []\<rparr>)
         (ParallelCommand ''Raitha Ex.scroll -- y'' 1)"
    unfolding parallel_example_run(3,4,5,6) by (simp add: numeral_2_eq_2)
  from e have 5: "timers ((runNext ^^ 2) parallelExample) = []"
    unfolding parallel_example_run(3) .
  from 1 2 3 4 5 6 7 8 parallel_example(1,2,3) parallel_example_run(1,2,7) show ?thesis
    by (intro conjI)
qed

subsection \<open>Chains\<close>

lemma chain_refines_chainSpec:
  assumes "timers s = []" "\<forall>c \<in> set commands. schedulesNothing c"
  shows "\<exists>k \<le> length commands - index.
           (runNext ^^ k) (executeChainSequence parseAndExecute s commands index) =
             chainSpec commands index s
           \<and> timers (chainSpec commands index s) = []"
  using assms
proof (induction commands index s rule: chainSpec.induct)
  case (1 commands index st)
  show ?case
  proof (cases "length commands \<le> index")
    case True
    with "1.prems" have "(runNext ^^ 0) (executeChainSequence parseAndExecute st commands index) =
             chainSpec commands index st \<and> timers (chainSpec commands index st) = []"
      by (simp add: executeChainSequence_def chainSpec.simps [of commands index st] logSuccess_def)
    then show ?thesis by blast
  next
    case False
    then have lt: "index < length commands" by simp
    with "1.prems" have "schedulesNothing (commands ! index)" by simp
    then have same: "sameTimers st (snd (parseAndExecute st (commands ! index)))"
      by (rule sameTimers_parseAndExecute)
    obtain r st1 where pe: "parseAndExecute st (commands ! index) = (r, st1)"
      by (cases "parseAndExecute st (commands ! index)") auto
    with same "1.prems" have t1: "timers st1 = []" and c1: "clock st1 = clock st"
      by (simp_all add: sameTimers_def)
    show ?thesis
    proof (cases r)
      case (Inl e)
      obtain msg where e: "e = Error msg" by (cases e) auto
      have "(runNext ^^ 0) (executeChainSequence parseAndExecute st commands index) =
             chainSpec commands index st \<and> timers (chainSpec commands index st) = []"
        using lt t1
        by (simp add: executeChainSequence_def chainSpec.simps [of commands index st] pe Inl e
            logError_def)
      then show ?thesis by blast
    next
      case (Inr res)
      let ?L = "logSuccess st1 (''Chain step '' @ showNat (index + 1) @ '': '' @ res)"
      let ?next = "?L\<lparr>nextHandle := nextHandle st1 + 1, clock := clock st1 + 1000\<rparr>"
      have tn: "timers ?next = []"
        using t1 by (simp add: logSuccess_def)
      from "1.IH" [OF False pe [symmetric] Inr tn "1.prems"(2)]
      obtain k where k: "k \<le> length commands - (index + 1)"
        and run: "(runNext ^^ k) (executeChainSequence parseAndExecute ?next commands (index + 1)) =
             chainSpec commands (index + 1) ?next"
        and tq: "timers (chainSpec commands (index + 1) ?next) = []"
        by blast
      have E: "executeChainSequence parseAndExecute st commands index =
                 setTimeout ?L (ChainStep commands (index + 1)) 1000"
        using lt by (simp add: executeChainSequence_def pe Inr)
      have "runNext (setTimeout ?L (ChainStep commands (index + 1)) 1000) =
              executeChainSequence parseAndExecute ?next commands (index + 1)"
      proof -
        have "?L\<lparr>timers := [], nextHandle := nextHandle st1 + 1, clock := clock st1 + 1000\<rparr> = ?next"
          using t1 by (cases st1) (simp add: logSuccess_def)
        then show ?thesis
          using t1 by (cases st1) (simp add: runNext_def setTimeout_def logSuccess_def Let_def max_def)
      qed
      with run E have "(runNext ^^ Suc k) (executeChainSequence parseAndExecute st commands index) =
             chainSpec commands (index + 1) ?next"
        by (simp add: funpow_swap1)
      moreover have "chainSpec commands index st = chainSpec commands (index + 1) ?next"
        using lt by (simp add: chainSpec.simps [of commands index st] pe Inr)
      moreover from k lt have "Suc k \<le> length commands - index" by simp
      ultimately show ?thesis using tq by metis
    qed
  qed
qed

text \<open>
  Claim C4. A chain command never fails itself: it splits its parameters on \<^verbatim>\<open>->\<close>,
  trims the parts and runs step 0 at once. The continuation \<open>ChainStep commands index\<close>
  runs step \<open>index\<close> when it fires. A step inside the chain dispatches its command in
  the state of that moment. If the dispatch succeeds, the step logs the result and
  schedules exactly one timeout, the continuation for step \<open>index + 1\<close>, due 1000 ms
  after the step. If the dispatch fails, the step logs the failure and schedules
  nothing: the state is the one the failed dispatch left, plus the log line, so no
  continuation for a later step exists. Past the last command the step logs the end
  of the chain. In the log, a step adds exactly one line after whatever its dispatch
  wrote: a success line with the number of the step and the result, or a failure line
  with the number of the step and the error message, or past the last command the
  line that the chain is completed. A step never touches the timers that were
  pending. On a page where no
  other timer is pending and for commands that schedule nothing themselves, the whole
  run follows: after at most as many turns of the event loop as there are steps left,
  the page is in the state that the state machine of the specification computes, and
  no timer is pending any more.
\<close>

theorem chain_runs_in_order_and_aborts:
  "executeChain parseAndExecute st params =
     (Inr (''Chain of '' @ showNat (length (splitOn ''->'' params)) @ '' commands started''),
      executeChainSequence parseAndExecute
        (logInfo st (''Chaining '' @ showNat (length (splitOn ''->'' params)) @ '' commands''))
        (map trim (splitOn ''->'' params)) 0)
   \<and> fire s (ChainStep commands index) = executeChainSequence parseAndExecute s commands index
   \<and> (index < length commands \<and> fst (parseAndExecute s (commands ! index)) = Inr res \<longrightarrow>
        executeChainSequence parseAndExecute s commands index =
          (logSuccess (snd (parseAndExecute s (commands ! index)))
             (''Chain step '' @ showNat (index + 1) @ '': '' @ res))
            \<lparr>timers := timers (snd (parseAndExecute s (commands ! index))) @
               [\<lparr>handle = nextHandle (snd (parseAndExecute s (commands ! index))),
                 due = clock s + 1000, period = None,
                 callback = ChainStep commands (index + 1)\<rparr>],
             nextHandle := nextHandle (snd (parseAndExecute s (commands ! index))) + 1\<rparr>)
   \<and> (index < length commands \<and> fst (parseAndExecute s (commands ! index)) = Inl (Error msg) \<longrightarrow>
        executeChainSequence parseAndExecute s commands index =
          logError (snd (parseAndExecute s (commands ! index)))
            (''Chain failed at step '' @ showNat (index + 1) @ '': '' @ msg))
   \<and> (length commands \<le> index \<longrightarrow>
        executeChainSequence parseAndExecute s commands index = logSuccess s ''Chain completed'')
   \<and> keepsTimers s (executeChainSequence parseAndExecute s commands index)
   \<and> (timers s = [] \<and> (\<forall>c \<in> set commands. schedulesNothing c) \<longrightarrow>
        (\<exists>k \<le> length commands - index.
           (runNext ^^ k) (executeChainSequence parseAndExecute s commands index) =
             chainSpec commands index s
           \<and> timers (chainSpec commands index s) = []))
   \<and> (index < length commands \<and> fst (parseAndExecute s (commands ! index)) = Inl (Error msg) \<longrightarrow>
        outputContent (executeChainSequence parseAndExecute s commands index) =
          outputContent (snd (parseAndExecute s (commands ! index)))
            @ [(Failure, ''Chain failed at step '' @ showNat (index + 1) @ '': '' @ msg)])
   \<and> (index < length commands \<and> fst (parseAndExecute s (commands ! index)) = Inr res \<longrightarrow>
        outputContent (executeChainSequence parseAndExecute s commands index) =
          outputContent (snd (parseAndExecute s (commands ! index)))
            @ [(Success, ''Chain step '' @ showNat (index + 1) @ '': '' @ res)])
   \<and> (length commands \<le> index \<longrightarrow>
        outputContent (executeChainSequence parseAndExecute s commands index) =
          outputContent s @ [(Success, ''Chain completed'')])"
proof -
  let ?s1 = "snd (parseAndExecute s (commands ! index))"
  have k: "keepsTimers s ?s1" by (rule keepsTimers_parseAndExecute)
  then have c: "clock ?s1 = clock s" by (simp add: keepsTimers_def)
  have 1: "executeChain parseAndExecute st params =
     (Inr (''Chain of '' @ showNat (length (splitOn ''->'' params)) @ '' commands started''),
      executeChainSequence parseAndExecute
        (logInfo st (''Chaining '' @ showNat (length (splitOn ''->'' params)) @ '' commands''))
        (map trim (splitOn ''->'' params)) 0)"
    by (simp add: executeChain_def Let_def)
  have 3: "index < length commands \<and> fst (parseAndExecute s (commands ! index)) = Inr res \<longrightarrow>
        executeChainSequence parseAndExecute s commands index =
          (logSuccess ?s1 (''Chain step '' @ showNat (index + 1) @ '': '' @ res))
            \<lparr>timers := timers ?s1 @
               [\<lparr>handle = nextHandle ?s1, due = clock s + 1000, period = None,
                 callback = ChainStep commands (index + 1)\<rparr>],
             nextHandle := nextHandle ?s1 + 1\<rparr>"
    using c
    by (cases "parseAndExecute s (commands ! index)")
       (auto simp: executeChainSequence_def setTimeout_def logSuccess_def)
  have 4: "index < length commands \<and> fst (parseAndExecute s (commands ! index)) = Inl (Error msg) \<longrightarrow>
        executeChainSequence parseAndExecute s commands index =
          logError ?s1 (''Chain failed at step '' @ showNat (index + 1) @ '': '' @ msg)"
    by (cases "parseAndExecute s (commands ! index)") (auto simp: executeChainSequence_def)
  have 5: "length commands \<le> index \<longrightarrow>
        executeChainSequence parseAndExecute s commands index = logSuccess s ''Chain completed''"
    by (simp add: executeChainSequence_def)
  have 6: "keepsTimers s (executeChainSequence parseAndExecute s commands index)"
    by (rule keepsTimers_chainSequence) (rule k)
  have 2: "fire s (ChainStep commands index) = executeChainSequence parseAndExecute s commands index"
    by simp
  have 7: "timers s = [] \<and> (\<forall>c \<in> set commands. schedulesNothing c) \<longrightarrow>
        (\<exists>k \<le> length commands - index.
           (runNext ^^ k) (executeChainSequence parseAndExecute s commands index) =
             chainSpec commands index s
           \<and> timers (chainSpec commands index s) = [])"
    using chain_refines_chainSpec by blast
  have 8: "index < length commands \<and> fst (parseAndExecute s (commands ! index)) = Inl (Error msg) \<longrightarrow>
        outputContent (executeChainSequence parseAndExecute s commands index) =
          outputContent ?s1
            @ [(Failure, ''Chain failed at step '' @ showNat (index + 1) @ '': '' @ msg)]"
    by (cases "parseAndExecute s (commands ! index)")
       (auto simp: executeChainSequence_def logError_def)
  have 9: "index < length commands \<and> fst (parseAndExecute s (commands ! index)) = Inr res \<longrightarrow>
        outputContent (executeChainSequence parseAndExecute s commands index) =
          outputContent ?s1
            @ [(Success, ''Chain step '' @ showNat (index + 1) @ '': '' @ res)]"
    by (cases "parseAndExecute s (commands ! index)")
       (auto simp: executeChainSequence_def setTimeout_def logSuccess_def)
  have 10: "length commands \<le> index \<longrightarrow>
        outputContent (executeChainSequence parseAndExecute s commands index) =
          outputContent s @ [(Success, ''Chain completed'')]"
    by (simp add: executeChainSequence_def logSuccess_def)
  show ?thesis
    by (intro conjI 1 2 3 4 5 6 7 8 9 10)
qed


lemma chain_example:
  "1 < length chainExampleCommands"
  "fst (parseAndExecute chainExample (chainExampleCommands ! 1)) =
     Inl (Error ''Invalid streaming platform URL'')"
  "0 < length chainExampleCommands"
  "fst (parseAndExecute chainExample (chainExampleCommands ! 0)) =
     Inr ''Scroll command registered''"
  "length chainExampleCommands \<le> 3"
  "showNat (1 + 1) = ''2''"
  "showNat (0 + 1) = ''1''"
  "outputContent (snd (parseAndExecute chainExample (chainExampleCommands ! 1))) =
     [(Info, ''Chaining 3 commands''),
      (Warning, ''Scroll command simulated (cross-origin restrictions apply)''),
      (Success, ''Chain step 1: Scroll command registered'')]"
  "outputContent (snd (parseAndExecute chainExample (chainExampleCommands ! 0))) =
     [(Info, ''Chaining 3 commands''),
      (Warning, ''Scroll command simulated (cross-origin restrictions apply)''),
      (Success, ''Chain step 1: Scroll command registered''),
      (Warning, ''Scroll command simulated (cross-origin restrictions apply)'')]"
  "outputContent chainExample =
     [(Info, ''Chaining 3 commands''),
      (Warning, ''Scroll command simulated (cross-origin restrictions apply)''),
      (Success, ''Chain step 1: Scroll command registered'')]"
  by code_simp+

text \<open>
  The example chain on the event loop: the first command ran when the chain was
  started, the only pending timer is the continuation for the second command, and
  after it has fired and the second command has failed the queue is empty: nothing is
  left that could dispatch the third command.
\<close>

lemma chain_example_run:
  "map callback (timers chainExample) = [ChainStep chainExampleCommands 1]"
  "map due (timers chainExample) = [1000]"
  "timers (runNext chainExample) = []"
  "outputContent (runNext chainExample) =
     [(Info, ''Chaining 3 commands''),
      (Warning, ''Scroll command simulated (cross-origin restrictions apply)''),
      (Success, ''Chain step 1: Scroll command registered''),
      (Failure, ''Chain failed at step 2: Invalid streaming platform URL'')]"
  by code_simp+

text \<open>
  The same chain from its first step, by the state machine of the specification: the
  first command succeeds, the second one fails, the third one leaves no trace.
\<close>

lemma chain_spec_example:
  "timers (initialState ''localhost'' True) = []"
  "list_all schedulesNothing chainExampleCommands"
  "length chainExampleCommands - 0 = 3"
  "outputContent (chainSpec chainExampleCommands 0 (initialState ''localhost'' True)) =
     [(Warning, ''Scroll command simulated (cross-origin restrictions apply)''),
      (Success, ''Chain step 1: Scroll command registered''),
      (Failure, ''Chain failed at step 2: Invalid streaming platform URL'')]"
  by code_simp+

theorem chain_runs_in_order_and_aborts_witness:
  "1 < length chainExampleCommands
   \<and> fst (parseAndExecute chainExample (chainExampleCommands ! 1)) =
       Inl (Error ''Invalid streaming platform URL'')
   \<and> executeChainSequence parseAndExecute chainExample chainExampleCommands 1 =
       logError (snd (parseAndExecute chainExample (chainExampleCommands ! 1)))
         ''Chain failed at step 2: Invalid streaming platform URL''
   \<and> 0 < length chainExampleCommands
   \<and> fst (parseAndExecute chainExample (chainExampleCommands ! 0)) =
       Inr ''Scroll command registered''
   \<and> map callback
        (drop (length (timers (snd (parseAndExecute chainExample (chainExampleCommands ! 0)))))
          (timers (executeChainSequence parseAndExecute chainExample chainExampleCommands 0))) =
       [ChainStep chainExampleCommands 1]
   \<and> length chainExampleCommands \<le> 3
   \<and> executeChainSequence parseAndExecute chainExample chainExampleCommands 3 =
       logSuccess chainExample ''Chain completed''
   \<and> timers (initialState ''localhost'' True) = []
   \<and> list_all schedulesNothing chainExampleCommands
   \<and> (\<exists>k \<le> 3. (runNext ^^ k)
          (executeChainSequence parseAndExecute (initialState ''localhost'' True)
             chainExampleCommands 0) =
        chainSpec chainExampleCommands 0 (initialState ''localhost'' True))
   \<and> outputContent (executeChainSequence parseAndExecute chainExample chainExampleCommands 1) =
       [(Info, ''Chaining 3 commands''),
        (Warning, ''Scroll command simulated (cross-origin restrictions apply)''),
        (Success, ''Chain step 1: Scroll command registered''),
        (Failure, ''Chain failed at step 2: Invalid streaming platform URL'')]
   \<and> outputContent (executeChainSequence parseAndExecute chainExample chainExampleCommands 0) =
       [(Info, ''Chaining 3 commands''),
        (Warning, ''Scroll command simulated (cross-origin restrictions apply)''),
        (Success, ''Chain step 1: Scroll command registered''),
        (Warning, ''Scroll command simulated (cross-origin restrictions apply)''),
        (Success, ''Chain step 1: Scroll command registered'')]
   \<and> outputContent (executeChainSequence parseAndExecute chainExample chainExampleCommands 3) =
       [(Info, ''Chaining 3 commands''),
        (Warning, ''Scroll command simulated (cross-origin restrictions apply)''),
        (Success, ''Chain step 1: Scroll command registered''),
        (Success, ''Chain completed'')]
   \<and> (\<exists>k \<le> 3. outputContent ((runNext ^^ k)
          (executeChainSequence parseAndExecute (initialState ''localhost'' True)
             chainExampleCommands 0)) =
        [(Warning, ''Scroll command simulated (cross-origin restrictions apply)''),
         (Success, ''Chain step 1: Scroll command registered''),
         (Failure, ''Chain failed at step 2: Invalid streaming platform URL'')])"
proof -
  note a = chain_runs_in_order_and_aborts
      [of "initialState ''localhost'' True" "''x''" chainExample chainExampleCommands 1 "''x''"
          "''Invalid streaming platform URL''"]
  note b = chain_runs_in_order_and_aborts
      [of "initialState ''localhost'' True" "''x''" chainExample chainExampleCommands 0
          "''Scroll command registered''" "''x''"]
  note c = chain_runs_in_order_and_aborts
      [of "initialState ''localhost'' True" "''x''" chainExample chainExampleCommands 3 "''x''"
          "''x''"]
  from a chain_example(1,2,6)
  have 1: "executeChainSequence parseAndExecute chainExample chainExampleCommands 1 =
       logError (snd (parseAndExecute chainExample (chainExampleCommands ! 1)))
         ''Chain failed at step 2: Invalid streaming platform URL''"
    by simp
  from b chain_example(3,4)
  have 2: "map callback
        (drop (length (timers (snd (parseAndExecute chainExample (chainExampleCommands ! 0)))))
          (timers (executeChainSequence parseAndExecute chainExample chainExampleCommands 0))) =
       [ChainStep chainExampleCommands 1]"
    by simp
  from c chain_example(5)
  have 3: "executeChainSequence parseAndExecute chainExample chainExampleCommands 3 =
       logSuccess chainExample ''Chain completed''"
    by simp
  note d = chain_runs_in_order_and_aborts
      [of "initialState ''localhost'' True" "''x''" "initialState ''localhost'' True"
          chainExampleCommands 0 "''x''" "''x''",
       THEN conjunct2, THEN conjunct2, THEN conjunct2, THEN conjunct2, THEN conjunct2,
       THEN conjunct2, THEN conjunct1]
  note a8 = a [THEN conjunct2, THEN conjunct2, THEN conjunct2, THEN conjunct2, THEN conjunct2,
       THEN conjunct2, THEN conjunct2, THEN conjunct1]
  note b9 = b [THEN conjunct2, THEN conjunct2, THEN conjunct2, THEN conjunct2, THEN conjunct2,
       THEN conjunct2, THEN conjunct2, THEN conjunct2, THEN conjunct1]
  note c10 = c [THEN conjunct2, THEN conjunct2, THEN conjunct2, THEN conjunct2, THEN conjunct2,
       THEN conjunct2, THEN conjunct2, THEN conjunct2, THEN conjunct2]
  from a8 chain_example(1,2,6)
  have 5: "outputContent (executeChainSequence parseAndExecute chainExample chainExampleCommands 1) =
       [(Info, ''Chaining 3 commands''),
        (Warning, ''Scroll command simulated (cross-origin restrictions apply)''),
        (Success, ''Chain step 1: Scroll command registered''),
        (Failure, ''Chain failed at step 2: Invalid streaming platform URL'')]"
    unfolding chain_example(8) by simp
  from b9 chain_example(3,4,7)
  have 6: "outputContent (executeChainSequence parseAndExecute chainExample chainExampleCommands 0) =
       [(Info, ''Chaining 3 commands''),
        (Warning, ''Scroll command simulated (cross-origin restrictions apply)''),
        (Success, ''Chain step 1: Scroll command registered''),
        (Warning, ''Scroll command simulated (cross-origin restrictions apply)''),
        (Success, ''Chain step 1: Scroll command registered'')]"
    unfolding chain_example(9) by simp
  from c10 chain_example(5)
  have 7: "outputContent (executeChainSequence parseAndExecute chainExample chainExampleCommands 3) =
       [(Info, ''Chaining 3 commands''),
        (Warning, ''Scroll command simulated (cross-origin restrictions apply)''),
        (Success, ''Chain step 1: Scroll command registered''),
        (Success, ''Chain completed'')]"
    unfolding chain_example(10) by simp
  from d chain_spec_example(1) chain_spec_example(2) [unfolded list_all_iff]
  have 4: "\<exists>k \<le> 3. (runNext ^^ k)
          (executeChainSequence parseAndExecute (initialState ''localhost'' True)
             chainExampleCommands 0) =
        chainSpec chainExampleCommands 0 (initialState ''localhost'' True)"
    unfolding chain_spec_example(3) by blast
  then have 8: "\<exists>k \<le> 3. outputContent ((runNext ^^ k)
          (executeChainSequence parseAndExecute (initialState ''localhost'' True)
             chainExampleCommands 0)) =
        [(Warning, ''Scroll command simulated (cross-origin restrictions apply)''),
         (Success, ''Chain step 1: Scroll command registered''),
         (Failure, ''Chain failed at step 2: Invalid streaming platform URL'')]"
    unfolding chain_spec_example(4) [symmetric] by metis
  from 1 2 3 4 5 6 7 8 chain_example(1-5) chain_spec_example(1,2) show ?thesis
    by (intro conjI)
qed

subsection \<open>Loops and multi-command lines\<close>

lemma loop_example_command:
  "parseCommand ''Raitha Ex.watch test.1'' = Inl (Error ''Missing parameters. Use: -- [params]'')"
  by code_simp

lemma loop_example_tick:
  "parseAndExecute st ''Raitha Ex.watch test.1'' =
     (Inl (Error ''Missing parameters. Use: -- [params]''), st)"
  by (subst parseAndExecute.simps) (simp add: loop_example_command)

lemma loop_example_start: "loopStuck 0 loopExample"
  unfolding loopStuck_def failures_def by code_simp

lemma loopStuck_step:
  assumes "loopStuck k st"
  shows "loopStuck (Suc k) (runNext st)"
proof -
  let ?t = "\<lparr>handle = 0, due = 1000 * (k + 1), period = Some 1000, callback = LoopTick 0\<rparr>"
  from assms have l: "activeLoops st 0 =
        Some \<lparr>loop_command = ''Raitha Ex.watch test.1'', loop_iterations = 3,
              loop_delay = 1000, loop_current = 0, loop_interval = Some 0\<rparr>"
    and t: "timers st = [?t]" and c: "clock st = 1000 * k" and f: "failures st = k"
    by (simp_all add: loopStuck_def)
  show ?thesis
    by (simp add: runNext_def t c l f Let_def loopTick_def loop_example_tick logError_def
        loopStuck_def failures_def [symmetric])
       (simp add: failures_def f [symmetric])
qed

lemma loopStuck_run: "loopStuck k ((runNext ^^ k) loopExample)"
proof (induction k)
  case 0
  show ?case by (simp add: loop_example_start)
next
  case (Suc k)
  then show ?case by (simp add: loopStuck_step)
qed

text \<open>
  Claim C3 on the code. The loop of the specification's example dispatches a command
  that fails on every tick. A failed tick skips the increment of the counter and the
  test for the end, so after \<open>k\<close> turns of the event loop, for every \<open>k\<close>, the loop has
  dispatched \<open>k\<close> times, its counter still is 0 and its interval timer still is pending:
  it does not stop after its three iterations.
\<close>

theorem loop_with_failing_command_never_completes:
  "map_option loop_current (activeLoops ((runNext ^^ k) loopExample) 0) = Some 0
   \<and> map callback (timers ((runNext ^^ k) loopExample)) = [LoopTick 0]
   \<and> failures ((runNext ^^ k) loopExample) = k"
  using loopStuck_run [of k] by (simp add: loopStuck_def)

text \<open>
  One failed tick among successful ones: the tab is closed after the first tick and
  opened again after the second. After three ticks the counter is 2 and the loop still
  runs; it ends with the fourth dispatch.
\<close>

lemma loop_example_one_failure:
  "map_option loop_iterations (activeLoops fullscreenLoop 0) = Some 3"
  "map_option loop_current
     (activeLoops
        (runNext (openTabs (runNext (closeTab (runNext fullscreenLoop) 0))
           ''https://vimeo.com/1'' 1 ''watch''))
        0) = Some 2"
  "failures (runNext (openTabs (runNext (closeTab (runNext fullscreenLoop) 0))
           ''https://vimeo.com/1'' 1 ''watch'')) = 1"
  "activeLoops
     (runNext (runNext (openTabs (runNext (closeTab (runNext fullscreenLoop) 0))
        ''https://vimeo.com/1'' 1 ''watch'')))
     0 = None"
  unfolding failures_def by code_simp+

text \<open>When no tick fails, the loop ends with its third dispatch.\<close>

lemma loop_example_success:
  "timers ((runNext ^^ 3)
     (snd (parseAndExecute (initialState ''localhost'' True)
             ''Leaf Ex.loop -- Raitha Ex.scroll -- x.3.1''))) = []"
  "map_option loop_current (activeLoops ((runNext ^^ 2)
     (snd (parseAndExecute (initialState ''localhost'' True)
             ''Leaf Ex.loop -- Raitha Ex.scroll -- x.3.1''))) 0) = Some 2"
  by code_simp+

text \<open>
  Claim C6 on the code. The line
  \<^verbatim>\<open>leaf Ex.parallel -- Raitha Ex.scroll -- a | Raitha Ex.scroll -- b\<close> is a parallel
  invocation for the parser, but \<^verbatim>\<open>executeCommand\<close> compares the head of the line with
  \<^verbatim>\<open>Leaf Ex.parallel\<close> letter by letter and splits the line on \<^verbatim>\<open>|\<close>: it schedules two
  multi-commands 200 ms apart, the first one the truncated parallel invocation. The
  same line with the agent written \<^verbatim>\<open>Leaf\<close> is passed whole to the dispatcher and
  schedules the two parallel commands 100 ms apart.
\<close>

theorem lowercase_parallel_line_is_split:
  "parseCommand ''leaf Ex.parallel -- Raitha Ex.scroll -- a | Raitha Ex.scroll -- b'' =
     Inr (''leaf'', ''parallel'', ''Raitha Ex.scroll -- a | Raitha Ex.scroll -- b'')
   \<and> map (\<lambda>t. (due t, callback t))
       (timers (executeCommand (initialState ''localhost'' True)
          ''leaf Ex.parallel -- Raitha Ex.scroll -- a | Raitha Ex.scroll -- b'')) =
       [(0, MultiCommand 0 ''leaf Ex.parallel -- Raitha Ex.scroll -- a'' 0),
        (200, MultiCommand 0 ''Raitha Ex.scroll -- b'' 1),
        (1000, Summary 0)]
   \<and> map (\<lambda>t. (due t, callback t))
       (timers (executeCommand (initialState ''localhost'' True)
          ''Leaf Ex.parallel -- Raitha Ex.scroll -- a | Raitha Ex.scroll -- b'')) =
       [(0, ParallelCommand ''Raitha Ex.scroll -- a'' 0),
        (100, ParallelCommand ''Raitha Ex.scroll -- b'' 1),
        (1000, Summary 0)]"
  by code_simp

text \<open>The two outcomes of a tick, and the two ways \<^verbatim>\<open>executeCommand\<close> treats a line.\<close>

lemma loopTick_failure:
  assumes "activeLoops st loopId = Some l"
    and "fst (parseAndExecute st (loop_command l)) = Inl (Error msg)"
  shows "loopTick st loopId =
           logError (snd (parseAndExecute st (loop_command l)))
             (''Loop '' @ showNat loopId @ '' error: '' @ msg)"
  using assms by (cases "parseAndExecute st (loop_command l)") (simp add: loopTick_def)

lemma loopTick_success:
  assumes "activeLoops st loopId = Some l"
    and "fst (parseAndExecute st (loop_command l)) = Inr res"
    and "loop_current l + 1 < loop_iterations l"
  shows "loopTick st loopId =
           (snd (parseAndExecute st (loop_command l)))
             \<lparr>activeLoops := (activeLoops (snd (parseAndExecute st (loop_command l))))
                (loopId \<mapsto> l\<lparr>loop_current := loop_current l + 1\<rparr>)\<rparr>"
  using assms by (cases "parseAndExecute st (loop_command l)") (simp add: loopTick_def Let_def)

lemma executeLine_split:
  assumes "trim line \<noteq> []" "\<not> startsWith (trim line) ''//''"
    "includesStr (trim line) ''|''" "\<not> startsWith (trim line) ''Leaf Ex.parallel''"
  shows "executeLine run (index, line) st =
           (logInfo st (''Executing '' @ showNat (length (splitOn ''|'' (trim line)))
                        @ '' commands simultaneously...''))
             \<lparr>timers := timers st @
                map (\<lambda>(i, cmd). \<lparr>handle = nextHandle st + i, due = clock st + i * 200,
                                period = None, callback = MultiCommand run cmd i\<rparr>)
                  (enumerate 0 (map trim (splitOn ''|'' (trim line)))),
              nextHandle := nextHandle st + length (splitOn ''|'' (trim line))\<rparr>"
  using assms
  by (simp add: executeLine_def Let_def
      fold_setTimeout [where cb = "\<lambda>i c. MultiCommand run c i" and d = "\<lambda>i. i * 200"]
      logInfo_def)

lemma executeLine_parallel_whole:
  assumes "startsWith (trim line) ''Leaf Ex.parallel''"
    and "fst (parseAndExecute st (trim line)) = Inr res" "res \<noteq> []"
  shows "executeLine run (index, line) st =
           logSuccess (countCommand run (snd (parseAndExecute st (trim line))))
             (''Command '' @ showNat (index + 1) @ '': '' @ res)"
proof -
  from assms(1) obtain b where b: "trim line = ''Leaf Ex.parallel'' @ b"
    by (auto simp: startsWith_iff)
  have "trim line \<noteq> []" "\<not> startsWith (trim line) ''//''"
    unfolding b by simp_all
  with assms show ?thesis
    by (cases "parseAndExecute st (trim line)") (simp add: executeLine_def Let_def)
qed

end
